theory Spec2Isabelle
  imports Main "HOL-Library.AList" "HOL-Library.Multiset" "HOL-Library.Word"
    "HOL-Library.Char_ord" "HOL-Library.List_Lexorder"
begin

section \<open>Shared data model\<close>

text \<open>
  The segment catalog of the data coordinator (\<^verbatim>\<open>internal/datacoord/meta.go\<close>) and the
  segment replica of the data node are embedded as functions on explicit states.
  Identifiers (Go \<^verbatim>\<open>int64\<close>) are \<open>int\<close>, timestamps (Go \<^verbatim>\<open>uint64\<close>) are \<open>nat\<close>; no
  arithmetic is done on either in the operations below, only comparison.
  A Go \<^verbatim>\<open>map\<close> is an association list read with \<open>map_of\<close> and written with
  \<open>AList.update\<close> / \<open>AList.delete\<close>; a loop over a Go map visits the entries in list
  order (Go leaves the order unspecified). A nil pointer is \<open>None\<close>; a nil dereference
  and an index out of range are the error \<open>Panic\<close>. Logging and metrics are left out.
\<close>

datatype error =
    CatalogError string
  | Panic
  | MismatchCollection int
  | InvalidCompactedFrom "int list"

text \<open>
  Modelled from the spec: the enumeration \<^verbatim>\<open>commonpb.SegmentState\<close> is declared outside
  the source files at hand; its values are the states the specification lists.
\<close>

datatype SegmentState =
  SegmentStateNone | NotExist | Growing | Sealed | Flushed | Flushing | Dropped

record MsgPosition =
  ChannelName :: string
  MsgID :: "nat list"
  MsgGroup :: string
  Timestamp :: nat

record Binlog =
  EntriesNum :: int
  TimestampFrom :: nat
  TimestampTo :: nat
  LogPath :: string
  LogSize :: int

record FieldBinlog =
  FieldID :: int
  Binlogs_fb :: "Binlog list"

text \<open>
  \<^verbatim>\<open>datacoord.SegmentInfo\<close> wraps the protobuf message \<^verbatim>\<open>datapb.SegmentInfo\<close>; the record
  holds the fields of the message and, of the wrapper, \<open>currRows\<close> and \<open>isCompacting\<close>
  (allocations and the last flush time are read by none of the operations below).
  \<^verbatim>\<open>Clone\<close> is a deep copy, so a cloned segment is the same record value.
\<close>

record SegmentInfo =
  ID :: int
  CollectionID :: int
  PartitionID :: int
  InsertChannel :: string
  NumOfRows :: int
  State :: SegmentState
  MaxRowNum :: int
  Binlogs :: "FieldBinlog list"
  Statslogs :: "FieldBinlog list"
  Deltalogs :: "FieldBinlog list"
  StartPosition :: "MsgPosition option"
  DmlPosition :: "MsgPosition option"
  CreatedByCompaction :: bool
  CompactionFrom :: "int list"
  DroppedAt :: nat
  IsImporting :: bool
  currRows :: int
  isCompacting :: bool

record CheckPoint =
  SegmentID_cp :: int
  Position_cp :: "MsgPosition option"
  NumOfRows_cp :: int

record SegmentStartPosition =
  StartPosition_sp :: "MsgPosition option"
  SegmentID_sp :: int

record CompactionSegmentBinlogs =
  SegmentID_cl :: int
  FieldBinlogs_cl :: "FieldBinlog list"
  Field2StatslogPaths_cl :: "FieldBinlog list"
  Deltalogs_cl :: "FieldBinlog list"

record CompactionResult =
  SegmentID_cr :: int
  NumOfRows_cr :: int
  InsertLogs :: "FieldBinlog list"
  Field2StatslogPaths :: "FieldBinlog list"
  Deltalogs_cr :: "FieldBinlog list"

section \<open>The backing store\<close>

text \<open>
  Modelled from the spec: the catalog behind \<^verbatim>\<open>metastore.DataCoordCatalog\<close> is an external
  transactional key-value store. A call either succeeds, and its write becomes visible
  (it is appended to \<open>written\<close>), or fails with an error and writes nothing. The field
  \<open>outcomes\<close> scripts the failures: the head is the outcome of the next call, and a
  call made when the script is used up succeeds.
\<close>

datatype catalog_write =
    W_AddSegment SegmentInfo
  | W_AlterSegments "SegmentInfo list"
  | W_SaveDroppedSegmentsInBatch "SegmentInfo list"
  | W_MarkChannelDeleted string

record catalog =
  written :: "catalog_write list"
  outcomes :: "string option list"

definition catalog_call :: "catalog_write \<Rightarrow> catalog \<Rightarrow> error option \<times> catalog" where
  "catalog_call w c =
     (case outcomes c of
        [] \<Rightarrow> (None, c\<lparr>written := written c @ [w]\<rparr>)
      | None # rest \<Rightarrow> (None, c\<lparr>written := written c @ [w], outcomes := rest\<rparr>)
      | Some e # rest \<Rightarrow> (Some (CatalogError e), c\<lparr>outcomes := rest\<rparr>))"


definition catalog_AlterSegments :: "SegmentInfo list \<Rightarrow> catalog \<Rightarrow> error option \<times> catalog" where
  "catalog_AlterSegments segs = catalog_call (W_AlterSegments segs)"



section \<open>The in-memory segment index\<close>

text \<open>
  Modelled from the spec: \<^verbatim>\<open>SegmentsInfo\<close> (the map from segment id to segment behind
  \<^verbatim>\<open>meta.segments\<close>) is declared outside the source files at hand. \<open>GetSegment\<close> looks an
  id up, \<open>SetSegment\<close> stores a segment under an id, and \<open>SetState_si\<close> and
  \<open>SetRowCount\<close> replace the state and the row count of a stored segment and do
  nothing for an unknown id.
\<close>

type_synonym SegmentsInfo = "(int \<times> SegmentInfo) list"

definition GetSegment :: "SegmentsInfo \<Rightarrow> int \<Rightarrow> SegmentInfo option" where
  "GetSegment segs segmentID = map_of segs segmentID"

definition SetSegment :: "int \<Rightarrow> SegmentInfo \<Rightarrow> SegmentsInfo \<Rightarrow> SegmentsInfo" where
  "SetSegment segmentID segment segs = AList.update segmentID segment segs"

definition SetState_si :: "int \<Rightarrow> SegmentState \<Rightarrow> SegmentsInfo \<Rightarrow> SegmentsInfo" where
  "SetState_si segmentID state segs =
     (case map_of segs segmentID of
        None \<Rightarrow> segs
      | Some segment \<Rightarrow> AList.update segmentID (segment\<lparr>State := state\<rparr>) segs)"

definition SetRowCount :: "int \<Rightarrow> int \<Rightarrow> SegmentsInfo \<Rightarrow> SegmentsInfo" where
  "SetRowCount segmentID rowCount segs =
     (case map_of segs segmentID of
        None \<Rightarrow> segs
      | Some segment \<Rightarrow> AList.update segmentID (segment\<lparr>NumOfRows := rowCount\<rparr>) segs)"

record meta =
  segments :: SegmentsInfo
  catalog :: catalog

section \<open>Catalog operations of \<^verbatim>\<open>meta.go\<close>\<close>

definition isSegmentHealthy :: "SegmentInfo option \<Rightarrow> bool" where
  "isSegmentHealthy segment =
     (case segment of
        None \<Rightarrow> False
      | Some s \<Rightarrow> State s \<noteq> SegmentStateNone \<and> State s \<noteq> NotExist \<and> State s \<noteq> Dropped)"


definition SetState :: "int \<Rightarrow> SegmentState \<Rightarrow> meta \<Rightarrow> error option \<times> meta" where
  "SetState segmentID targetState m =
     (case GetSegment (segments m) segmentID of
        None \<Rightarrow> (None, m)
      | Some curSegInfo \<Rightarrow>
          (let clonedSegment = curSegInfo\<lparr>State := targetState\<rparr> in
           if isSegmentHealthy (Some clonedSegment) then
             (case catalog_AlterSegments [clonedSegment] (catalog m) of
                (Some err, c) \<Rightarrow> (Some err, m\<lparr>catalog := c\<rparr>)
              | (None, c) \<Rightarrow>
                  (None, m\<lparr>segments := SetState_si segmentID targetState (segments m),
                            catalog := c\<rparr>))
           else (None, m\<lparr>segments := SetState_si segmentID targetState (segments m)\<rparr>)))"

subsection \<open>\<^verbatim>\<open>UpdateFlushSegmentsInfo\<close>\<close>

text \<open>
  The closure \<^verbatim>\<open>getFieldBinlogs\<close> returns a pointer to the first entry with the given field
  id, which the caller then extends in place: the model returns the index of that entry.
\<close>

fun getFieldBinlogs :: "int \<Rightarrow> FieldBinlog list \<Rightarrow> nat option" where
  "getFieldBinlogs fid [] = None"
| "getFieldBinlogs fid (binlog # binlogs) =
     (if fid = FieldID binlog then Some 0 else map_option Suc (getFieldBinlogs fid binlogs))"

text \<open>One round of the loop over the incoming binlogs (and, the same, deltalogs).\<close>

definition mergeFieldBinlog :: "FieldBinlog list \<Rightarrow> FieldBinlog \<Rightarrow> FieldBinlog list" where
  "mergeFieldBinlog currBinlogs tBinlogs =
     (case getFieldBinlogs (FieldID tBinlogs) currBinlogs of
        None \<Rightarrow> currBinlogs @ [tBinlogs]
      | Some i \<Rightarrow>
          currBinlogs[i := (currBinlogs ! i)
            \<lparr>Binlogs_fb := Binlogs_fb (currBinlogs ! i) @ Binlogs_fb tBinlogs\<rparr>])"

definition mergeFieldBinlogs :: "FieldBinlog list \<Rightarrow> FieldBinlog list \<Rightarrow> FieldBinlog list" where
  "mergeFieldBinlogs currBinlogs binlogs = foldl mergeFieldBinlog currBinlogs binlogs"

text \<open>The cloned segment after the flags and the three file sets have been applied.\<close>

definition flushClone ::
  "SegmentInfo \<Rightarrow> bool \<Rightarrow> bool \<Rightarrow> FieldBinlog list \<Rightarrow> FieldBinlog list \<Rightarrow> FieldBinlog list
    \<Rightarrow> nat \<Rightarrow> SegmentInfo" where
  "flushClone segment flushed dropped binlogs statslogs deltalogs now =
     (let c0 = (if flushed then segment\<lparr>State := Flushing\<rparr> else segment);
          c1 = (if dropped then c0\<lparr>State := Dropped, DroppedAt := now\<rparr> else c0);
          c2 = c1\<lparr>Binlogs := mergeFieldBinlogs (Binlogs c1) binlogs\<rparr>;
          c3 = (if length statslogs > 0 then c2\<lparr>Statslogs := statslogs\<rparr> else c2)
      in c3\<lparr>Deltalogs := mergeFieldBinlogs (Deltalogs c3) deltalogs\<rparr>)"

definition getClonedSegment :: "SegmentsInfo \<Rightarrow> SegmentsInfo \<Rightarrow> int \<Rightarrow> SegmentInfo option" where
  "getClonedSegment modSegments segs segmentID =
     (case map_of modSegments segmentID of
        Some s \<Rightarrow> Some s
      | None \<Rightarrow>
          (case GetSegment segs segmentID of
             None \<Rightarrow> None
           | Some s \<Rightarrow> if isSegmentHealthy (Some s) then Some s else None))"

definition GetMsgID :: "MsgPosition option \<Rightarrow> nat list" where
  "GetMsgID p = (case p of None \<Rightarrow> [] | Some q \<Rightarrow> MsgID q)"

definition startPosition_step ::
  "SegmentsInfo \<Rightarrow> SegmentsInfo \<Rightarrow> SegmentStartPosition \<Rightarrow> SegmentsInfo" where
  "startPosition_step segs modSegments pos =
     (if length (GetMsgID (StartPosition_sp pos)) = 0 then modSegments
      else (case getClonedSegment modSegments segs (SegmentID_sp pos) of
              None \<Rightarrow> modSegments
            | Some s \<Rightarrow>
                AList.update (SegmentID_sp pos) (s\<lparr>StartPosition := StartPosition_sp pos\<rparr>)
                  modSegments))"

text \<open>
  One round of the loop over the checkpoints. The comparison reads
  \<^verbatim>\<open>cp.Position.Timestamp\<close> without a nil check, and only when the stored position is
  not nil.
\<close>

definition checkpoint_step ::
  "SegmentsInfo \<Rightarrow> SegmentsInfo \<Rightarrow> CheckPoint \<Rightarrow> error + SegmentsInfo" where
  "checkpoint_step segs modSegments cp =
     (case getClonedSegment modSegments segs (SegmentID_cp cp) of
        None \<Rightarrow> Inr modSegments
      | Some s \<Rightarrow>
          (let applied = AList.update (SegmentID_cp cp)
                 (s\<lparr>DmlPosition := Position_cp cp, NumOfRows := NumOfRows_cp cp\<rparr>) modSegments
           in case DmlPosition s of
                None \<Rightarrow> Inr applied
              | Some d \<Rightarrow>
                  (case Position_cp cp of
                     None \<Rightarrow> Inl Panic
                   | Some p \<Rightarrow>
                       if Timestamp d \<ge> Timestamp p then Inr modSegments else Inr applied)))"

fun checkpoints_loop ::
  "SegmentsInfo \<Rightarrow> SegmentsInfo \<Rightarrow> CheckPoint list \<Rightarrow> error + SegmentsInfo" where
  "checkpoints_loop segs modSegments [] = Inr modSegments"
| "checkpoints_loop segs modSegments (cp # cps) =
     (case checkpoint_step segs modSegments cp of
        Inl e \<Rightarrow> Inl e
      | Inr modSegments' \<Rightarrow> checkpoints_loop segs modSegments' cps)"

text \<open>Writing the modified segments back into the index, after the store accepted them.\<close>

definition setSegments :: "SegmentsInfo \<Rightarrow> SegmentsInfo \<Rightarrow> SegmentsInfo" where
  "setSegments modSegments segs = foldl (\<lambda>si (segmentID, s). SetSegment segmentID s si) segs modSegments"

text \<open>
  The branch taken when \<open>importing\<close> is set: the row count of the segment in the index
  is overwritten with its current row count (\<^verbatim>\<open>segment.currRows\<close> is read without a nil
  check).
\<close>

definition importRowCount :: "bool \<Rightarrow> int \<Rightarrow> SegmentsInfo \<Rightarrow> error + SegmentsInfo" where
  "importRowCount importing segmentID segs =
     (if importing
      then (case GetSegment segs segmentID of
              None \<Rightarrow> Inl Panic
            | Some segment \<Rightarrow> Inr (SetRowCount segmentID (currRows segment) segs))
      else Inr segs)"

text \<open>The segments to be written: the clone of the flushed segment, then the two loops.\<close>

definition flushModSegments ::
  "SegmentsInfo \<Rightarrow> int \<Rightarrow> SegmentInfo \<Rightarrow> CheckPoint list \<Rightarrow> SegmentStartPosition list
    \<Rightarrow> error + SegmentsInfo" where
  "flushModSegments segs segmentID clonedSegment checkpoints startPositions =
     checkpoints_loop segs
       (foldl (startPosition_step segs) [(segmentID, clonedSegment)] startPositions) checkpoints"

definition UpdateFlushSegmentsInfo ::
  "int \<Rightarrow> bool \<Rightarrow> bool \<Rightarrow> bool \<Rightarrow> FieldBinlog list \<Rightarrow> FieldBinlog list \<Rightarrow> FieldBinlog list
    \<Rightarrow> CheckPoint list \<Rightarrow> SegmentStartPosition list \<Rightarrow> nat \<Rightarrow> meta \<Rightarrow> error option \<times> meta" where
  "UpdateFlushSegmentsInfo segmentID flushed dropped importing binlogs statslogs deltalogs
      checkpoints startPositions now m =
     (case importRowCount importing segmentID (segments m) of
        Inl e \<Rightarrow> (Some e, m)
      | Inr segs \<Rightarrow>
          (case GetSegment segs segmentID of
             None \<Rightarrow> (None, m\<lparr>segments := segs\<rparr>)
           | Some segment \<Rightarrow>
               if \<not> isSegmentHealthy (Some segment) then (None, m\<lparr>segments := segs\<rparr>)
               else
                 (case flushModSegments segs segmentID
                         (flushClone segment flushed dropped binlogs statslogs deltalogs now)
                         checkpoints startPositions of
                    Inl e \<Rightarrow> (Some e, m\<lparr>segments := segs\<rparr>)
                  | Inr modSegments \<Rightarrow>
                      (case catalog_AlterSegments (map snd modSegments) (catalog m) of
                         (Some err, c) \<Rightarrow> (Some err, m\<lparr>segments := segs, catalog := c\<rparr>)
                       | (None, c) \<Rightarrow>
                           (None, m\<lparr>segments := setSegments modSegments segs,
                                     catalog := c\<rparr>)))))"

subsection \<open>\<^verbatim>\<open>UpdateDropChannelSegmentInfo\<close>\<close>







subsection \<open>Compaction\<close>

text \<open>
  \<^verbatim>\<open>updateDeltalogs\<close> keeps, per entry of \<open>origin\<close>, the logs whose path no entry of
  \<open>removes\<close> with the same field id lists. The Go map from path to log is an
  association list; the source collects the kept logs by ranging over the map, in an
  order Go leaves open, so the order of the logs within an entry of the result is an
  artefact of the list. The parameter \<open>adds\<close> is not read by the source either.
\<close>

definition removeLogs :: "FieldBinlog \<Rightarrow> (string \<times> Binlog) list \<Rightarrow> FieldBinlog
    \<Rightarrow> (string \<times> Binlog) list" where
  "removeLogs fbl logs remove =
     (if FieldID remove = FieldID fbl
      then foldl (\<lambda>l r. AList.delete (LogPath r) l) logs (Binlogs_fb remove)
      else logs)"

definition updateDeltalogs ::
  "FieldBinlog list \<Rightarrow> FieldBinlog list \<Rightarrow> FieldBinlog list \<Rightarrow> FieldBinlog list" where
  "updateDeltalogs origin removes adds =
     concat (map (\<lambda>fbl.
       (let logs0 = foldl (\<lambda>logs d. AList.update (LogPath d) d logs) [] (Binlogs_fb fbl);
            logs = foldl (removeLogs fbl) logs0 removes;
            binlogs = map snd logs
        in if length binlogs > 0 then [\<lparr>FieldID = FieldID fbl, Binlogs_fb = binlogs\<rparr>] else []))
       origin)"

text \<open>
  The first loop of \<^verbatim>\<open>GetCompleteCompactionMeta\<close>: each source found in the index, as it
  is and as a clone marked dropped. \<^verbatim>\<open>time.Now()\<close> is read once per found source:
  \<open>clock n\<close> is the \<open>n\<close>-th reading.
\<close>

fun compactionSources ::
  "SegmentsInfo \<Rightarrow> (nat \<Rightarrow> nat) \<Rightarrow> nat \<Rightarrow> CompactionSegmentBinlogs list
    \<Rightarrow> (SegmentInfo \<times> SegmentInfo) list" where
  "compactionSources segs clock n [] = []"
| "compactionSources segs clock n (cl # cls) =
     (case GetSegment segs (SegmentID_cl cl) of
        None \<Rightarrow> compactionSources segs clock n cls
      | Some segment \<Rightarrow>
          (segment, segment\<lparr>State := Dropped, DroppedAt := clock n\<rparr>)
            # compactionSources segs clock (Suc n) cls)"

text \<open>One round of the loop that keeps the position with the earliest timestamp.\<close>

definition earlierPosition :: "MsgPosition option \<Rightarrow> MsgPosition option \<Rightarrow> MsgPosition option" where
  "earlierPosition position p =
     (case position of
        None \<Rightarrow> p
      | Some cur \<Rightarrow>
          (case p of
             None \<Rightarrow> position
           | Some q \<Rightarrow> if Timestamp q < Timestamp cur then p else position))"

definition GetCompleteCompactionMeta ::
  "CompactionSegmentBinlogs list \<Rightarrow> CompactionResult \<Rightarrow> (nat \<Rightarrow> nat) \<Rightarrow> meta
    \<Rightarrow> (error + SegmentInfo list \<times> SegmentInfo list \<times> SegmentInfo) \<times> meta" where
  "GetCompleteCompactionMeta compactionLogs result clock m =
     (let sources = compactionSources (segments m) clock 0 compactionLogs;
          oldSegments = map fst sources;
          modSegments = map snd sources;
          dmlPosition = foldl earlierPosition None (map DmlPosition modSegments);
          startPosition = foldl earlierPosition None (map StartPosition modSegments);
          originDeltalogs = concat (map Deltalogs modSegments);
          deletedDeltalogs = concat (map Deltalogs_cl compactionLogs);
          newAddedDeltalogs = updateDeltalogs originDeltalogs deletedDeltalogs [];
          deltalogs = Deltalogs_cr result @ newAddedDeltalogs;
          compactionFrom = map ID modSegments
      in case modSegments of
           [] \<Rightarrow> (Inl Panic, m)
         | first # others \<Rightarrow>
             (Inr (oldSegments, modSegments,
                \<lparr>ID = SegmentID_cr result,
                 CollectionID = CollectionID first,
                 PartitionID = PartitionID first,
                 InsertChannel = InsertChannel first,
                 NumOfRows = NumOfRows_cr result,
                 State = Flushing,
                 MaxRowNum = MaxRowNum first,
                 Binlogs = InsertLogs result,
                 Statslogs = Field2StatslogPaths result,
                 Deltalogs = deltalogs,
                 StartPosition = startPosition,
                 DmlPosition = dmlPosition,
                 CreatedByCompaction = True,
                 CompactionFrom = compactionFrom,
                 DroppedAt = 0,
                 IsImporting = False,
                 currRows = 0,
                 isCompacting = False\<rparr>), m))"

definition alterInMemoryMetaAfterCompaction :: "SegmentInfo \<Rightarrow> SegmentInfo list \<Rightarrow> meta \<Rightarrow> meta" where
  "alterInMemoryMetaAfterCompaction segmentCompactTo segmentsCompactFrom m =
     (let segs = foldl (\<lambda>si s. SetSegment (ID s) s si) (segments m) segmentsCompactFrom
      in if NumOfRows segmentCompactTo > 0
         then m\<lparr>segments := SetSegment (ID segmentCompactTo) segmentCompactTo segs\<rparr>
         else m\<lparr>segments := segs\<rparr>)"

section \<open>The segment replica of the data node\<close>

text \<open>
  Modelled from the spec: the primary keys of package \<^verbatim>\<open>storage\<close> are declared outside the
  source files at hand. A key is a 64-bit integer or a string; \<open>GT\<close> and \<open>LT\<close> compare
  two keys of the same type under the order of that type and are false for keys of
  different types.
\<close>

datatype primaryKey = Int64PrimaryKey int | VarCharPrimaryKey string

fun GT :: "primaryKey \<Rightarrow> primaryKey \<Rightarrow> bool" where
  "GT (Int64PrimaryKey a) (Int64PrimaryKey b) = (a > b)"
| "GT (VarCharPrimaryKey a) (VarCharPrimaryKey b) = (a > b)"
| "GT _ _ = False"

fun LT :: "primaryKey \<Rightarrow> primaryKey \<Rightarrow> bool" where
  "LT (Int64PrimaryKey a) (Int64PrimaryKey b) = (a < b)"
| "LT (VarCharPrimaryKey a) (VarCharPrimaryKey b) = (a < b)"
| "LT _ _ = False"

text \<open>
  Modelled from the spec: the membership filter (\<^verbatim>\<open>bloom.BloomFilter\<close>) is an external
  library. The model keeps the byte strings added to it, in the order they were added;
  the filter answers true for each of them.
\<close>

type_synonym byte = "8 word"

record BloomFilter =
  added :: "byte list list"

definition Add :: "byte list \<Rightarrow> BloomFilter \<Rightarrow> BloomFilter" where
  "Add data f = f\<lparr>added := added f @ [data]\<rparr>"

definition AddString :: "string \<Rightarrow> BloomFilter \<Rightarrow> BloomFilter" where
  "AddString data f = Add (map (\<lambda>c. of_char c) data) f"

definition Test :: "byte list \<Rightarrow> BloomFilter \<Rightarrow> bool" where
  "Test data f = (data \<in> set (added f))"

text \<open>
  \<^verbatim>\<open>common.Endian.PutUint64(buf, uint64(pk))\<close>: the eight bytes of the key, lowest first
  (the byte order of \<^verbatim>\<open>common.Endian\<close> is declared outside the source files at hand).
\<close>

definition PutUint64 :: "int \<Rightarrow> byte list" where
  "PutUint64 pk = map (\<lambda>i. ucast (drop_bit (8 * i) (word_of_int pk :: 64 word))) [0..<8]"

datatype FieldData =
    Int64FieldData "int list"
  | StringFieldData "string list"
  | OtherFieldData

record segmentCheckPoint =
  numRows_cp :: int
  pos_cp :: MsgPosition

record Segment =
  collectionID :: int
  partitionID :: int
  segmentID :: int
  numRows :: int
  memorySize :: int
  isNew :: bool
  isFlushed :: bool
  channelName :: string
  compactedTo :: int
  checkPoint :: segmentCheckPoint
  startPos :: "MsgPosition option"
  endPos :: "MsgPosition option"
  pkFilter :: "BloomFilter option"
  minPK :: "primaryKey option"
  maxPK :: "primaryKey option"

record SegmentReplica =
  collectionID_r :: int
  newSegments :: "(int \<times> Segment) list"
  normalSegments :: "(int \<times> Segment) list"
  flushedSegments :: "(int \<times> Segment) list"
  compactedSegments :: "(int \<times> Segment) list"

definition updatePk :: "primaryKey \<Rightarrow> Segment \<Rightarrow> Segment" where
  "updatePk pk s =
     (let s1 = (case minPK s of
                  None \<Rightarrow> s\<lparr>minPK := Some pk\<rparr>
                | Some mn \<Rightarrow> if GT mn pk then s\<lparr>minPK := Some pk\<rparr> else s)
      in case maxPK s1 of
           None \<Rightarrow> s1\<lparr>maxPK := Some pk\<rparr>
         | Some mx \<Rightarrow> if LT mx pk then s1\<lparr>maxPK := Some pk\<rparr> else s1)"

text \<open>One round of each loop of \<^verbatim>\<open>updatePKRange\<close>; the filter pointer is dereferenced.\<close>

definition addInt64 :: "Segment \<Rightarrow> int \<Rightarrow> error + Segment" where
  "addInt64 s pk =
     (let s1 = updatePk (Int64PrimaryKey pk) s
      in case pkFilter s1 of
           None \<Rightarrow> Inl Panic
         | Some f \<Rightarrow> Inr (s1\<lparr>pkFilter := Some (Add (PutUint64 pk) f)\<rparr>))"

definition addString :: "Segment \<Rightarrow> string \<Rightarrow> error + Segment" where
  "addString s pk =
     (let s1 = updatePk (VarCharPrimaryKey pk) s
      in case pkFilter s1 of
           None \<Rightarrow> Inl Panic
         | Some f \<Rightarrow> Inr (s1\<lparr>pkFilter := Some (AddString pk f)\<rparr>))"

fun foldE :: "('s \<Rightarrow> 'a \<Rightarrow> error + 's) \<Rightarrow> 's \<Rightarrow> 'a list \<Rightarrow> error + 's" where
  "foldE f s [] = Inr s"
| "foldE f s (x # xs) = (case f s x of Inl e \<Rightarrow> Inl e | Inr s' \<Rightarrow> foldE f s' xs)"

fun updatePKRange :: "FieldData \<Rightarrow> Segment \<Rightarrow> error + Segment" where
  "updatePKRange (Int64FieldData pks) s = foldE addInt64 s pks"
| "updatePKRange (StringFieldData pks) s = foldE addString s pks"
| "updatePKRange OtherFieldData s = Inr s"

definition hasSegment :: "int \<Rightarrow> bool \<Rightarrow> SegmentReplica \<Rightarrow> bool" where
  "hasSegment segID countFlushed replica =
     (let inNew = (map_of (newSegments replica) segID \<noteq> None);
          inNormal = (map_of (normalSegments replica) segID \<noteq> None);
          inFlush = (if countFlushed then map_of (flushedSegments replica) segID \<noteq> None else False)
      in inNew \<or> inNormal \<or> inFlush)"

definition new2NormalSegment :: "int \<Rightarrow> SegmentReplica \<Rightarrow> error + SegmentReplica" where
  "new2NormalSegment segID replica =
     (case map_of (newSegments replica) segID of
        None \<Rightarrow> Inl Panic
      | Some seg \<Rightarrow>
          Inr (replica\<lparr>normalSegments := AList.update segID (seg\<lparr>isNew := False\<rparr>)
                          (normalSegments replica),
                       newSegments := AList.delete segID (newSegments replica)\<rparr>))"

text \<open>
  The loop of \<^verbatim>\<open>listNewSegmentsStartPositions\<close> ranges over the map it deletes from: each
  round takes an entry of the map as it is then.
\<close>

function listNewSegments_loop ::
  "SegmentReplica \<Rightarrow> (int \<times> MsgPosition option) list
    \<Rightarrow> error + (int \<times> MsgPosition option) list \<times> SegmentReplica" where
  "listNewSegments_loop replica result =
     (case newSegments replica of
        [] \<Rightarrow> Inr (result, replica)
      | (segID, seg) # rest \<Rightarrow>
          (case new2NormalSegment segID replica of
             Inl e \<Rightarrow> Inl e
           | Inr replica' \<Rightarrow> listNewSegments_loop replica' (result @ [(segID, startPos seg)])))"
  by pat_completeness auto
termination
proof (relation "measure (\<lambda>(replica, result). length (newSegments replica))")
  show "wf (measure (\<lambda>(replica, result). length (newSegments replica)))"
    by simp
next
  fix replica :: SegmentReplica and result :: "(int \<times> MsgPosition option) list"
    and x21 rest x1 x2 x2a
  assume a: "newSegments replica = x21 # rest" "(x1, x2) = x21"
    and b: "new2NormalSegment x1 replica = Inr x2a"
  from b have "newSegments x2a = AList.delete x1 (newSegments replica)"
    by (auto simp: new2NormalSegment_def split: option.splits)
  with a have "newSegments x2a = AList.delete x1 rest"
    by auto
  then have "length (newSegments x2a) \<le> length rest"
    by (simp add: AList.length_delete_le)
  with a show "((x2a, result @ [(x1, startPos x2)]), replica, result)
      \<in> measure (\<lambda>(replica, result). length (newSegments replica))"
    by simp
qed

declare listNewSegments_loop.simps [simp del]

definition listNewSegmentsStartPositions ::
  "SegmentReplica \<Rightarrow> error + (int \<times> MsgPosition option) list \<times> SegmentReplica" where
  "listNewSegmentsStartPositions replica = listNewSegments_loop replica []"

text \<open>The validation loop and the moving loop of \<^verbatim>\<open>mergeFlushedSegments\<close>.\<close>

definition inValidSegments :: "int list \<Rightarrow> SegmentReplica \<Rightarrow> int list" where
  "inValidSegments compactedFrom replica =
     filter (\<lambda>segID. \<not> hasSegment segID True replica \<or> hasSegment segID False replica)
       compactedFrom"

definition moveCompacted :: "int \<Rightarrow> SegmentReplica \<Rightarrow> int \<Rightarrow> error + SegmentReplica" where
  "moveCompacted newID replica segID =
     (case map_of (flushedSegments replica) segID of
        None \<Rightarrow> Inl Panic
      | Some s \<Rightarrow>
          Inr (replica\<lparr>compactedSegments := AList.update segID (s\<lparr>compactedTo := newID\<rparr>)
                          (compactedSegments replica),
                       flushedSegments := AList.delete segID (flushedSegments replica)\<rparr>))"

text \<open>
  The moving loop mutates the buckets round by round: when a round finds no flushed
  entry for its id (a nil pointer is dereferenced), the loop stops with the buckets as
  the rounds before have left them.
\<close>

fun moveCompacted_all :: "int \<Rightarrow> SegmentReplica \<Rightarrow> int list \<Rightarrow> error option \<times> SegmentReplica" where
  "moveCompacted_all newID replica [] = (None, replica)"
| "moveCompacted_all newID replica (segID # rest) =
     (case moveCompacted newID replica segID of
        Inl e \<Rightarrow> (Some e, replica)
      | Inr replica' \<Rightarrow> moveCompacted_all newID replica' rest)"

definition mergeFlushedSegments ::
  "Segment \<Rightarrow> int \<Rightarrow> int list \<Rightarrow> SegmentReplica \<Rightarrow> error option \<times> SegmentReplica" where
  "mergeFlushedSegments seg planID compactedFrom replica =
     (if collectionID seg \<noteq> collectionID_r replica
      then (Some (MismatchCollection (collectionID seg)), replica)
      else if length (inValidSegments compactedFrom replica) > 0
      then (Some (InvalidCompactedFrom (inValidSegments compactedFrom replica)), replica)
      else (case moveCompacted_all (segmentID seg) replica compactedFrom of
              (Some e, replica') \<Rightarrow> (Some e, replica')
            | (None, replica') \<Rightarrow>
                if numRows seg > 0
                then (None, replica'\<lparr>flushedSegments :=
                        AList.update (segmentID seg) (seg\<lparr>isNew := False, isFlushed := True\<rparr>)
                          (flushedSegments replica')\<rparr>)
                else (None, replica')))"

section \<open>Observations and example states\<close>

text \<open>The outcome the store has in stock for the next call: an error, or success.\<close>

definition catalog_fails :: "catalog \<Rightarrow> string option" where
  "catalog_fails c = (case outcomes c of Some e # rest \<Rightarrow> Some e | _ \<Rightarrow> None)"

text \<open>The log paths a list of per-field file sets holds for one field, in order.\<close>

definition logPaths :: "int \<Rightarrow> FieldBinlog list \<Rightarrow> string list" where
  "logPaths fid fbs =
     concat (map (\<lambda>fb. map LogPath (Binlogs_fb fb)) (filter (\<lambda>fb. FieldID fb = fid) fbs))"

text \<open>The pairs of field id and log path a list of per-field file sets holds.\<close>

definition fieldPaths :: "FieldBinlog list \<Rightarrow> (int \<times> string) set" where
  "fieldPaths fbs = {(FieldID fb, LogPath b) | fb b. fb \<in> set fbs \<and> b \<in> set (Binlogs_fb fb)}"

text \<open>
  The entries of a list of per-field file sets, in order, each with its field id and
  its logs without their order.
\<close>

definition entryLogs :: "FieldBinlog list \<Rightarrow> (int \<times> Binlog multiset) list" where
  "entryLogs fbs = map (\<lambda>fb. (FieldID fb, mset (Binlogs_fb fb))) fbs"

text \<open>The stored checkpoint of a segment of the index, if the index holds the segment.\<close>

definition storedCheckpoint :: "meta \<Rightarrow> int \<Rightarrow> MsgPosition option option" where
  "storedCheckpoint m sid = map_option DmlPosition (GetSegment (segments m) sid)"


definition ex_segment :: SegmentInfo where
  "ex_segment = \<lparr>ID = 1, CollectionID = 100, PartitionID = 10, InsertChannel = ''ch1'',
      NumOfRows = 0, State = Flushed, MaxRowNum = 1000, Binlogs = [], Statslogs = [],
      Deltalogs = [], StartPosition = None, DmlPosition = None, CreatedByCompaction = False,
      CompactionFrom = [], DroppedAt = 0, IsImporting = False, currRows = 5,
      isCompacting = False\<rparr>"

definition ex_catalog :: catalog where
  "ex_catalog = \<lparr>written = [], outcomes = []\<rparr>"

definition ex_meta :: meta where
  "ex_meta = \<lparr>segments = [(1, ex_segment)], catalog = ex_catalog\<rparr>"

definition ex_position :: "nat \<Rightarrow> MsgPosition" where
  "ex_position ts = \<lparr>ChannelName = ''ch1'', MsgID = [1], MsgGroup = ''g'', Timestamp = ts\<rparr>"

definition ex_binlog :: "string \<Rightarrow> Binlog" where
  "ex_binlog path =
     \<lparr>EntriesNum = 1, TimestampFrom = 0, TimestampTo = 0, LogPath = path, LogSize = 1\<rparr>"

definition ex_fieldBinlog :: "int \<Rightarrow> string list \<Rightarrow> FieldBinlog" where
  "ex_fieldBinlog fid paths = \<lparr>FieldID = fid, Binlogs_fb = map ex_binlog paths\<rparr>"


text \<open>
  The checkpoint that the loop over the checkpoints sees for a segment id: that of the
  segment it would work on, if there is one.
\<close>

definition viewCheckpoint :: "SegmentsInfo \<Rightarrow> SegmentsInfo \<Rightarrow> int \<Rightarrow> MsgPosition option option" where
  "viewCheckpoint modSegments segs sid =
     map_option DmlPosition (getClonedSegment modSegments segs sid)"

text \<open>
  An incoming checkpoint is not newer than what the index holds: its segment is unknown
  or not healthy, or the stored position has a timestamp at least as large.
\<close>

definition notNewer :: "SegmentsInfo \<Rightarrow> CheckPoint \<Rightarrow> bool" where
  "notNewer segs cp =
     (case GetSegment segs (SegmentID_cp cp) of
        None \<Rightarrow> True
      | Some s \<Rightarrow>
          \<not> isSegmentHealthy (Some s) \<or>
          (case DmlPosition s of
             None \<Rightarrow> False
           | Some d \<Rightarrow>
               (case Position_cp cp of
                  None \<Rightarrow> False
                | Some p \<Rightarrow> Timestamp p \<le> Timestamp d)))"

definition ex_checkpoint :: "nat \<Rightarrow> int \<Rightarrow> CheckPoint" where
  "ex_checkpoint ts rows =
     \<lparr>SegmentID_cp = 1, Position_cp = Some (ex_position ts), NumOfRows_cp = rows\<rparr>"

definition ex_meta_cp :: meta where
  "ex_meta_cp =
     \<lparr>segments = [(1, ex_segment\<lparr>DmlPosition := Some (ex_position 10)\<rparr>)], catalog = ex_catalog\<rparr>"



text \<open>
  A position is the earliest of a list of positions: it is one of them and no position
  of the list has a smaller timestamp; it is nil only when all of them are.
\<close>

definition isEarliest :: "MsgPosition option \<Rightarrow> MsgPosition option list \<Rightarrow> bool" where
  "isEarliest r ps =
     (case r of
        None \<Rightarrow> list_all (\<lambda>p. p = None) ps
      | Some q \<Rightarrow>
          Some q \<in> set ps \<and>
          list_all (\<lambda>p. case p of None \<Rightarrow> True | Some p' \<Rightarrow> Timestamp q \<le> Timestamp p') ps)"

text \<open>The segments of the index that a list of compaction logs names, in order.\<close>

definition foundSources :: "SegmentsInfo \<Rightarrow> CompactionSegmentBinlogs list \<Rightarrow> SegmentInfo list" where
  "foundSources segs logs =
     concat (map (\<lambda>cl. case GetSegment segs (SegmentID_cl cl) of None \<Rightarrow> [] | Some s \<Rightarrow> [s]) logs)"

definition ex_segment_a :: SegmentInfo where
  "ex_segment_a = ex_segment\<lparr>NumOfRows := 4, StartPosition := Some (ex_position 5),
     DmlPosition := Some (ex_position 10), Deltalogs := [ex_fieldBinlog 0 [''d1'', ''d2'']]\<rparr>"

definition ex_segment_b :: SegmentInfo where
  "ex_segment_b = ex_segment\<lparr>ID := 3, NumOfRows := 6, StartPosition := Some (ex_position 6),
     DmlPosition := Some (ex_position 7), Deltalogs := [ex_fieldBinlog 0 [''d3'']]\<rparr>"

definition ex_meta_compact :: meta where
  "ex_meta_compact = \<lparr>segments = [(1, ex_segment_a), (3, ex_segment_b)], catalog = ex_catalog\<rparr>"

definition ex_logs :: "CompactionSegmentBinlogs list" where
  "ex_logs =
     [\<lparr>SegmentID_cl = 1, FieldBinlogs_cl = [], Field2StatslogPaths_cl = [],
       Deltalogs_cl = [ex_fieldBinlog 0 [''d1'']]\<rparr>,
      \<lparr>SegmentID_cl = 3, FieldBinlogs_cl = [], Field2StatslogPaths_cl = [],
       Deltalogs_cl = [ex_fieldBinlog 0 [''d3'']]\<rparr>]"

definition ex_result :: "int \<Rightarrow> CompactionResult" where
  "ex_result rows =
     \<lparr>SegmentID_cr = 9, NumOfRows_cr = rows, InsertLogs = [ex_fieldBinlog 100 [''i'']],
      Field2StatslogPaths = [ex_fieldBinlog 100 [''s'']],
      Deltalogs_cr = [ex_fieldBinlog 0 [''r'']]\<rparr>"

definition ex_clock :: "nat \<Rightarrow> nat" where
  "ex_clock n = 1000 + n"

definition ex_dn_segment :: Segment where
  "ex_dn_segment =
     \<lparr>collectionID = 100, partitionID = 10, segmentID = 1, numRows = 0, memorySize = 0,
      isNew = True, isFlushed = False, channelName = ''ch1'', compactedTo = 0,
      checkPoint = \<lparr>numRows_cp = 0, pos_cp = ex_position 5\<rparr>,
      startPos = Some (ex_position 5), endPos = None, pkFilter = Some \<lparr>added = []\<rparr>,
      minPK = None, maxPK = None\<rparr>"

definition ex_flushed_segment :: "int \<Rightarrow> Segment" where
  "ex_flushed_segment sid =
     ex_dn_segment\<lparr>segmentID := sid, numRows := 3, isNew := False, isFlushed := True\<rparr>"

definition ex_replica :: SegmentReplica where
  "ex_replica =
     \<lparr>collectionID_r = 100,
      newSegments = [(1, ex_dn_segment), (2, ex_dn_segment\<lparr>segmentID := 2, startPos := None\<rparr>)],
      normalSegments = [],
      flushedSegments = [(7, ex_flushed_segment 7), (8, ex_flushed_segment 8)],
      compactedSegments = []\<rparr>"

text \<open>
  The key range of a segment is that of a list of keys: nil for no key, else the least
  and the greatest key of the list.
\<close>

definition pkRange :: "('a::linorder \<Rightarrow> primaryKey) \<Rightarrow> 'a list \<Rightarrow> Segment \<Rightarrow> bool" where
  "pkRange C ks s =
     (minPK s = (if ks = [] then None else Some (C (Min (set ks)))) \<and>
      maxPK s = (if ks = [] then None else Some (C (Max (set ks)))))"

section \<open>Properties of the catalog operations\<close>

subsection \<open>\<^verbatim>\<open>SetState\<close>\<close>

lemma GetSegment_SetState_si:
  "GetSegment segs sid = Some cur \<Longrightarrow>
   GetSegment (SetState_si sid t segs) = (GetSegment segs)(sid \<mapsto> cur\<lparr>State := t\<rparr>)"
  by (auto simp: GetSegment_def SetState_si_def update_conv')

text \<open>
  C7, as the code has it. A request for an unknown segment id returns nil and changes
  nothing. For a known id the state change is written to the backing store if and
  only if the segment with the new state applied is healthy: when that write fails the
  error is returned and neither the store nor the index changes; when it succeeds, and
  also when nothing is written because the new state is not a healthy one, the index
  holds the segment with the new state and nil is returned. This is so for a segment
  that is currently dropped as for any other.
\<close>

theorem SetState_persists_iff_healthy:
  "(GetSegment (segments m) sid = None \<longrightarrow> SetState sid t m = (None, m)) \<and>
   (GetSegment (segments m) sid = Some cur \<longrightarrow>
      (isSegmentHealthy (Some (cur\<lparr>State := t\<rparr>)) \<and> catalog_fails (catalog m) = None \<longrightarrow>
         fst (SetState sid t m) = None \<and>
         written (catalog (snd (SetState sid t m)))
           = written (catalog m) @ [W_AlterSegments [cur\<lparr>State := t\<rparr>]] \<and>
         GetSegment (segments (snd (SetState sid t m)))
           = (GetSegment (segments m))(sid \<mapsto> cur\<lparr>State := t\<rparr>)) \<and>
      (isSegmentHealthy (Some (cur\<lparr>State := t\<rparr>)) \<and> catalog_fails (catalog m) = Some e \<longrightarrow>
         fst (SetState sid t m) = Some (CatalogError e) \<and>
         written (catalog (snd (SetState sid t m))) = written (catalog m) \<and>
         segments (snd (SetState sid t m)) = segments m) \<and>
      (\<not> isSegmentHealthy (Some (cur\<lparr>State := t\<rparr>)) \<longrightarrow>
         fst (SetState sid t m) = None \<and>
         catalog (snd (SetState sid t m)) = catalog m \<and>
         GetSegment (segments (snd (SetState sid t m)))
           = (GetSegment (segments m))(sid \<mapsto> cur\<lparr>State := t\<rparr>)))"
  by (auto simp: SetState_def Let_def catalog_AlterSegments_def catalog_call_def
      catalog_fails_def GetSegment_SetState_si split: option.splits list.splits)

theorem SetState_persists_iff_healthy_witness:
  "SetState 2 Flushed ex_meta = (None, ex_meta) \<and>
   GetSegment (segments ex_meta) 1 = Some ex_segment \<and>
   isSegmentHealthy (Some (ex_segment\<lparr>State := Sealed\<rparr>)) \<and>
   catalog_fails (catalog ex_meta) = None \<and>
   written (catalog (snd (SetState 1 Sealed ex_meta)))
     = [W_AlterSegments [ex_segment\<lparr>State := Sealed\<rparr>]] \<and>
   GetSegment (segments (snd (SetState 1 Sealed ex_meta))) 1
     = Some (ex_segment\<lparr>State := Sealed\<rparr>) \<and>
   \<not> isSegmentHealthy (Some (ex_segment\<lparr>State := Dropped\<rparr>)) \<and>
   fst (SetState 1 Dropped ex_meta) = None \<and>
   catalog (snd (SetState 1 Dropped ex_meta)) = catalog ex_meta \<and>
   GetSegment (segments (snd (SetState 1 Dropped ex_meta))) 1
     = Some (ex_segment\<lparr>State := Dropped\<rparr>)"
  using SetState_persists_iff_healthy [of ex_meta 2 Flushed]
    SetState_persists_iff_healthy [of ex_meta 1 Sealed ex_segment]
    SetState_persists_iff_healthy [of ex_meta 1 Dropped ex_segment]
  by (simp add: ex_meta_def ex_segment_def ex_catalog_def GetSegment_def isSegmentHealthy_def
      catalog_fails_def)

text \<open>
  A dropped segment is not left alone: setting the dropped segment 1 to \<open>Flushed\<close> writes
  to the store and makes the segment flushed in the index.
\<close>

theorem SetState_dropped_counterexample:
  "map_option State
     (GetSegment (segments \<lparr>segments = [(1, ex_segment\<lparr>State := Dropped\<rparr>)], catalog = ex_catalog\<rparr>) 1)
     = Some Dropped \<and>
   SetState 1 Flushed \<lparr>segments = [(1, ex_segment\<lparr>State := Dropped\<rparr>)], catalog = ex_catalog\<rparr>
     = (None, \<lparr>segments = [(1, ex_segment\<lparr>State := Flushed\<rparr>)],
               catalog = \<lparr>written = [W_AlterSegments [ex_segment\<lparr>State := Flushed\<rparr>]],
                          outcomes = []\<rparr>\<rparr>)"
  by (simp add: SetState_def SetState_si_def GetSegment_def isSegmentHealthy_def Let_def
      catalog_AlterSegments_def catalog_call_def ex_segment_def ex_catalog_def)

subsection \<open>\<^verbatim>\<open>UpdateFlushSegmentsInfo\<close>: the written segments\<close>

lemma map_of_rev_distinct:
  "distinct (map fst xs) \<Longrightarrow> map_of (rev xs) = map_of xs"
proof (induction xs)
  case Nil
  then show ?case by simp
next
  case (Cons a xs)
  obtain k v where a: "a = (k, v)" by (cases a)
  from Cons.prems a have notin: "map_of xs k = None"
    by (auto simp: map_of_eq_None_iff)
  have "map_of (rev (a # xs)) = [k \<mapsto> v] ++ map_of xs"
    using Cons a by simp
  also have "\<dots> = map_of (a # xs)"
  proof
    fix x show "([k \<mapsto> v] ++ map_of xs) x = map_of (a # xs) x"
      using notin a by (auto simp: map_add_def split: option.splits)
  qed
  finally show ?case .
qed

lemma map_of_setSegments_aux:
  "map_of (foldl (\<lambda>si (k, s). SetSegment k s si) segs ms) = map_of segs ++ map_of (rev ms)"
proof (induction ms arbitrary: segs)
  case Nil
  then show ?case by simp
next
  case (Cons a ms)
  obtain k s where a: "a = (k, s)" by (cases a)
  have "map_of (SetSegment k s segs) ++ map_of (rev ms) = map_of segs ++ ([k \<mapsto> s] ++ map_of (rev ms))"
    (is "?l = ?r")
  proof
    fix x show "?l x = ?r x"
      by (auto simp: SetSegment_def update_conv' map_add_def split: option.splits)
  qed
  with Cons a show ?case by simp
qed

lemma map_of_setSegments:
  "distinct (map fst ms) \<Longrightarrow> map_of (setSegments ms segs) = map_of segs ++ map_of ms"
  by (simp add: setSegments_def map_of_setSegments_aux map_of_rev_distinct)

lemma startPosition_step_keep:
  assumes "\<And>s p. f (s\<lparr>StartPosition := p\<rparr>) = f s" and "map_of ms k = Some s"
  shows "\<exists>s'. map_of (startPosition_step segs ms pos) k = Some s' \<and> f s' = f s"
  using assms
  by (auto simp: startPosition_step_def getClonedSegment_def update_conv' split: option.splits)

lemma startPosition_step_distinct:
  "distinct (map fst ms) \<Longrightarrow> distinct (map fst (startPosition_step segs ms pos))"
  by (auto simp: startPosition_step_def distinct_update split: option.splits)

lemma startPositions_keep:
  assumes "\<And>s p. f (s\<lparr>StartPosition := p\<rparr>) = f s"
  shows "map_of ms k = Some s \<Longrightarrow>
    \<exists>s'. map_of (foldl (startPosition_step segs) ms poss) k = Some s' \<and> f s' = f s"
proof (induction poss arbitrary: ms s)
  case Nil
  then show ?case by simp
next
  case (Cons pos poss)
  from startPosition_step_keep[OF assms Cons.prems, of segs pos]
  obtain s1 where s1: "map_of (startPosition_step segs ms pos) k = Some s1" "f s1 = f s"
    by blast
  from Cons.IH[OF s1(1)] s1(2) show ?case by auto
qed

lemma startPositions_distinct:
  "distinct (map fst ms) \<Longrightarrow> distinct (map fst (foldl (startPosition_step segs) ms poss))"
  by (induction poss arbitrary: ms) (auto simp: startPosition_step_distinct)

lemma checkpoint_step_keep:
  assumes "\<And>s p n. f (s\<lparr>DmlPosition := p, NumOfRows := n\<rparr>) = f s" and "map_of ms k = Some s"
    and "checkpoint_step segs ms cp = Inr ms'"
  shows "\<exists>s'. map_of ms' k = Some s' \<and> f s' = f s"
  using assms
  by (auto simp: checkpoint_step_def getClonedSegment_def update_conv' Let_def
      split: option.splits if_splits)

lemma checkpoint_step_distinct:
  "distinct (map fst ms) \<Longrightarrow> checkpoint_step segs ms cp = Inr ms' \<Longrightarrow> distinct (map fst ms')"
  by (auto simp: checkpoint_step_def distinct_update Let_def split: option.splits if_splits)

lemma checkpoints_loop_keep:
  assumes "\<And>s p n. f (s\<lparr>DmlPosition := p, NumOfRows := n\<rparr>) = f s"
  shows "map_of ms k = Some s \<Longrightarrow> checkpoints_loop segs ms cps = Inr ms' \<Longrightarrow>
    \<exists>s'. map_of ms' k = Some s' \<and> f s' = f s"
proof (induction cps arbitrary: ms s)
  case Nil
  then show ?case by simp
next
  case (Cons cp cps)
  from Cons.prems(2) obtain ms1 where m1: "checkpoint_step segs ms cp = Inr ms1"
    and rest: "checkpoints_loop segs ms1 cps = Inr ms'"
    by (auto split: sum.splits)
  from checkpoint_step_keep[OF assms Cons.prems(1) m1]
  obtain s1 where s1: "map_of ms1 k = Some s1" "f s1 = f s" by blast
  from Cons.IH[OF s1(1) rest] s1(2) show ?case by auto
qed

lemma checkpoints_loop_distinct:
  "distinct (map fst ms) \<Longrightarrow> checkpoints_loop segs ms cps = Inr ms' \<Longrightarrow> distinct (map fst ms')"
proof (induction cps arbitrary: ms)
  case Nil
  then show ?case by simp
next
  case (Cons cp cps)
  then show ?case
    by (auto split: sum.splits dest: checkpoint_step_distinct)
qed

lemma getFieldBinlogs_Some:
  "getFieldBinlogs fid bs = Some i \<Longrightarrow> i < length bs \<and> FieldID (bs ! i) = fid"
  by (induction bs arbitrary: i) (auto split: if_splits)

lemma logPaths_append: "logPaths fid (xs @ ys) = logPaths fid xs @ logPaths fid ys"
  by (simp add: logPaths_def)

lemma mset_logPaths_mergeFieldBinlog:
  "mset (logPaths fid (mergeFieldBinlog cur t)) = mset (logPaths fid cur) + mset (logPaths fid [t])"
proof (induction cur)
  case Nil
  then show ?case by (simp add: mergeFieldBinlog_def logPaths_def)
next
  case (Cons b bs)
  show ?case
  proof (cases "FieldID t = FieldID b")
    case True
    then show ?thesis by (simp add: mergeFieldBinlog_def logPaths_def)
  next
    case False
    with Cons show ?thesis
      by (auto simp: mergeFieldBinlog_def logPaths_def split: option.splits)
  qed
qed

lemma logPaths_Cons: "logPaths fid (t # ts) = logPaths fid [t] @ logPaths fid ts"
  by (simp add: logPaths_def)

lemma mset_logPaths_mergeFieldBinlogs:
  "mset (logPaths fid (mergeFieldBinlogs cur ts)) = mset (logPaths fid cur) + mset (logPaths fid ts)"
proof (induction ts arbitrary: cur)
  case Nil
  then show ?case by (simp add: mergeFieldBinlogs_def logPaths_def)
next
  case (Cons t ts)
  have "mergeFieldBinlogs cur (t # ts) = mergeFieldBinlogs (mergeFieldBinlog cur t) ts"
    by (simp add: mergeFieldBinlogs_def)
  then show ?case
    using Cons[of "mergeFieldBinlog cur t"] mset_logPaths_mergeFieldBinlog[of fid cur t]
      logPaths_Cons[of fid t ts]
    by simp
qed

lemma importRowCount_keep:
  assumes "\<And>s n. f (s\<lparr>NumOfRows := n\<rparr>) = f s" and "importRowCount imp sid segs = Inr segs'"
  shows "map_option f (GetSegment segs' k) = map_option f (GetSegment segs k)"
  using assms
  by (auto simp: importRowCount_def SetRowCount_def GetSegment_def update_conv'
      split: if_splits option.splits)

lemma flushModSegments_keep:
  assumes "\<And>s p. f (s\<lparr>StartPosition := p\<rparr>) = f s"
    and "\<And>s p n. f (s\<lparr>DmlPosition := p, NumOfRows := n\<rparr>) = f s"
    and "flushModSegments segs sid c cps sps = Inr ms"
  shows "distinct (map fst ms) \<and> (\<exists>s'. map_of ms sid = Some s' \<and> f s' = f c)"
proof -
  let ?ms1 = "foldl (startPosition_step segs) [(sid, c)] sps"
  have d1: "distinct (map fst ?ms1)"
    by (rule startPositions_distinct) simp
  have "map_of [(sid, c)] sid = Some c" by simp
  from startPositions_keep[of f, OF assms(1) this, of segs sps]
  obtain s1 where s1: "map_of ?ms1 sid = Some s1" "f s1 = f c" by blast
  from assms(3) have loop: "checkpoints_loop segs ?ms1 cps = Inr ms"
    by (simp add: flushModSegments_def)
  from checkpoints_loop_keep[of f, OF assms(2) s1(1) loop] s1(2)
    checkpoints_loop_distinct[OF d1 loop]
  show ?thesis by auto
qed

lemma flushClone_files:
  "Binlogs (flushClone seg fl dr bl sl dl now) = mergeFieldBinlogs (Binlogs seg) bl"
  "Deltalogs (flushClone seg fl dr bl sl dl now) = mergeFieldBinlogs (Deltalogs seg) dl"
  "Statslogs (flushClone seg fl dr bl sl dl now) = (if sl = [] then Statslogs seg else sl)"
  by (simp_all add: flushClone_def Let_def)

lemma UpdateFlushSegmentsInfo_success:
  assumes "fst (UpdateFlushSegmentsInfo sid fl dr imp bl sl dl cps sps now m) = None"
    and "GetSegment (segments m) sid = Some seg" and "isSegmentHealthy (Some seg)"
  obtains segs seg1 ms where
    "importRowCount imp sid (segments m) = Inr segs"
    "GetSegment segs sid = Some seg1" "isSegmentHealthy (Some seg1)"
    "flushModSegments segs sid (flushClone seg1 fl dr bl sl dl now) cps sps = Inr ms"
    "catalog_fails (catalog m) = None"
    "segments (snd (UpdateFlushSegmentsInfo sid fl dr imp bl sl dl cps sps now m))
       = setSegments ms segs"
    "written (catalog (snd (UpdateFlushSegmentsInfo sid fl dr imp bl sl dl cps sps now m)))
       = written (catalog m) @ [W_AlterSegments (map snd ms)]"
proof -
  obtain segs where i: "importRowCount imp sid (segments m) = Inr segs"
    using assms(1) by (cases "importRowCount imp sid (segments m)")
      (auto simp: UpdateFlushSegmentsInfo_def)
  from importRowCount_keep[of State, OF _ i, of sid] assms(2)
  obtain seg1 where g: "GetSegment segs sid = Some seg1" and st: "State seg1 = State seg"
    by auto
  from st assms(3) have h: "isSegmentHealthy (Some seg1)"
    by (simp add: isSegmentHealthy_def)
  obtain ms where f: "flushModSegments segs sid (flushClone seg1 fl dr bl sl dl now) cps sps = Inr ms"
    using assms(1) i g h
    by (cases "flushModSegments segs sid (flushClone seg1 fl dr bl sl dl now) cps sps")
      (auto simp: UpdateFlushSegmentsInfo_def)
  have c: "catalog_fails (catalog m) = None"
    using assms(1) i g h f
    by (auto simp: UpdateFlushSegmentsInfo_def catalog_AlterSegments_def catalog_call_def
        catalog_fails_def split: list.splits option.splits)
  have "segments (snd (UpdateFlushSegmentsInfo sid fl dr imp bl sl dl cps sps now m))
       = setSegments ms segs"
    "written (catalog (snd (UpdateFlushSegmentsInfo sid fl dr imp bl sl dl cps sps now m)))
       = written (catalog m) @ [W_AlterSegments (map snd ms)]"
    using i g h f c
    by (auto simp: UpdateFlushSegmentsInfo_def catalog_AlterSegments_def catalog_call_def
        catalog_fails_def split: list.splits option.splits)
  with that i g h f c show ?thesis by blast
qed

text \<open>
  C2, as the code has it. When \<^verbatim>\<open>UpdateFlushSegmentsInfo\<close> succeeds on a healthy segment,
  the segment held by the index afterwards has the incoming binlogs and deltalogs merged
  into its file sets by field id: the logs of an incoming entry are appended to the first
  entry with the same field id, and an entry with a new field id is appended as it is.
  Nothing is compared by path, so for every field the paths afterwards are the paths
  before together with the incoming ones, each as often as it came. The statslogs are
  replaced by the incoming batch when that is not empty, and kept otherwise.
\<close>

theorem UpdateFlushSegmentsInfo_appends_logs:
  assumes "GetSegment (segments m) sid = Some seg" and "isSegmentHealthy (Some seg)"
    and "fst (UpdateFlushSegmentsInfo sid fl dr imp bl sl dl cps sps now m) = None"
  shows "\<exists>seg'. GetSegment (segments (snd (UpdateFlushSegmentsInfo sid fl dr imp bl sl dl cps sps now m))) sid
            = Some seg' \<and>
          Binlogs seg' = mergeFieldBinlogs (Binlogs seg) bl \<and>
          Deltalogs seg' = mergeFieldBinlogs (Deltalogs seg) dl \<and>
          Statslogs seg' = (if sl = [] then Statslogs seg else sl) \<and>
          (\<forall>fid. mset (logPaths fid (Binlogs seg'))
                  = mset (logPaths fid (Binlogs seg)) + mset (logPaths fid bl)) \<and>
          (\<forall>fid. mset (logPaths fid (Deltalogs seg'))
                  = mset (logPaths fid (Deltalogs seg)) + mset (logPaths fid dl))"
proof -
  let ?F = "\<lambda>s. (Binlogs s, Statslogs s, Deltalogs s)"
  from UpdateFlushSegmentsInfo_success[OF assms(3) assms(1) assms(2)]
  obtain segs seg1 ms where
    i: "importRowCount imp sid (segments m) = Inr segs" and
    g: "GetSegment segs sid = Some seg1" and
    f: "flushModSegments segs sid (flushClone seg1 fl dr bl sl dl now) cps sps = Inr ms" and
    r: "segments (snd (UpdateFlushSegmentsInfo sid fl dr imp bl sl dl cps sps now m))
       = setSegments ms segs"
    by blast
  from importRowCount_keep[of ?F, OF _ i, of sid] assms(1) g
  have F1: "?F seg1 = ?F seg" by simp
  from flushModSegments_keep[of ?F, OF _ _ f]
  obtain s' where d: "distinct (map fst ms)" and s': "map_of ms sid = Some s'"
    and F2: "?F s' = ?F (flushClone seg1 fl dr bl sl dl now)"
    by auto
  have "GetSegment (setSegments ms segs) sid = Some s'"
    using d s' by (simp add: GetSegment_def map_of_setSegments)
  moreover have "Binlogs s' = mergeFieldBinlogs (Binlogs seg) bl"
    "Deltalogs s' = mergeFieldBinlogs (Deltalogs seg) dl"
    "Statslogs s' = (if sl = [] then Statslogs seg else sl)"
    using F1 F2 by (simp_all add: flushClone_files)
  ultimately show ?thesis
    using r by (simp add: mset_logPaths_mergeFieldBinlogs)
qed

lemmas ufsi_eval = UpdateFlushSegmentsInfo_def importRowCount_def flushModSegments_def
  flushClone_def mergeFieldBinlogs_def mergeFieldBinlog_def startPosition_step_def
  checkpoint_step_def getClonedSegment_def setSegments_def SetSegment_def SetRowCount_def
  GetSegment_def isSegmentHealthy_def catalog_AlterSegments_def catalog_call_def
  catalog_fails_def GetMsgID_def Let_def

lemmas ex_eval = ex_segment_def ex_catalog_def ex_meta_def ex_position_def ex_binlog_def
  ex_fieldBinlog_def

theorem UpdateFlushSegmentsInfo_appends_logs_witness:
  "GetSegment (segments ex_meta) 1 = Some ex_segment \<and>
   isSegmentHealthy (Some ex_segment) \<and>
   fst (UpdateFlushSegmentsInfo 1 True False False [ex_fieldBinlog 7 [''a'']]
          [ex_fieldBinlog 7 [''s'']] [] [] [] 0 ex_meta) = None \<and>
   (\<exists>seg'. GetSegment (segments (snd (UpdateFlushSegmentsInfo 1 True False False
                [ex_fieldBinlog 7 [''a'']] [ex_fieldBinlog 7 [''s'']] [] [] [] 0 ex_meta))) 1
             = Some seg' \<and>
           Binlogs seg' = [ex_fieldBinlog 7 [''a'']] \<and>
           Statslogs seg' = [ex_fieldBinlog 7 [''s'']] \<and>
           mset (logPaths 7 (Binlogs seg')) = {#''a''#})"
proof -
  have a: "GetSegment (segments ex_meta) 1 = Some ex_segment"
    by (simp add: ex_eval GetSegment_def)
  have b: "isSegmentHealthy (Some ex_segment)"
    by (simp add: ex_eval isSegmentHealthy_def)
  have c: "fst (UpdateFlushSegmentsInfo 1 True False False [ex_fieldBinlog 7 [''a'']]
          [ex_fieldBinlog 7 [''s'']] [] [] [] 0 ex_meta) = None"
    by (simp add: ufsi_eval ex_eval)
  show ?thesis
    using a b c UpdateFlushSegmentsInfo_appends_logs [OF a b c]
    by (auto simp: ex_eval mergeFieldBinlogs_def mergeFieldBinlog_def logPaths_def)
qed

text \<open>
  A path that the field already holds is appended again: after flushing the binlog
  \<open>a\<close> of field 7 into a segment that holds it, the field lists the path twice.
\<close>

theorem UpdateFlushSegmentsInfo_dedup_counterexample:
  "logPaths 7 (Binlogs (ex_segment\<lparr>Binlogs := [ex_fieldBinlog 7 [''a'']]\<rparr>)) = [''a''] \<and>
   fst (UpdateFlushSegmentsInfo 1 False False False [ex_fieldBinlog 7 [''a'']] [] [] [] [] 0
     \<lparr>segments = [(1, ex_segment\<lparr>Binlogs := [ex_fieldBinlog 7 [''a'']]\<rparr>)],
      catalog = ex_catalog\<rparr>) = None \<and>
   map_option (\<lambda>s. logPaths 7 (Binlogs s))
     (GetSegment (segments (snd (UpdateFlushSegmentsInfo 1 False False False
        [ex_fieldBinlog 7 [''a'']] [] [] [] [] 0
        \<lparr>segments = [(1, ex_segment\<lparr>Binlogs := [ex_fieldBinlog 7 [''a'']]\<rparr>)],
         catalog = ex_catalog\<rparr>))) 1)
     = Some [''a'', ''a'']"
  by (simp add: ufsi_eval ex_eval logPaths_def)

subsection \<open>A failed write\<close>










subsection \<open>\<^verbatim>\<open>UpdateFlushSegmentsInfo\<close>: checkpoints\<close>

lemma checkpoint_step_view:
  assumes "checkpoint_step segs ms cp = Inr ms'"
  shows "viewCheckpoint ms' segs x = viewCheckpoint ms segs x \<or>
     (x = SegmentID_cp cp \<and> viewCheckpoint ms' segs x = Some (Position_cp cp) \<and>
      (viewCheckpoint ms segs x = Some None \<or>
       (\<exists>d p. viewCheckpoint ms segs x = Some (Some d) \<and> Position_cp cp = Some p \<and>
              Timestamp d < Timestamp p)))"
  using assms
  by (auto simp: checkpoint_step_def viewCheckpoint_def getClonedSegment_def update_conv' Let_def
      split: option.splits if_splits)

lemma checkpoint_step_stale:
  assumes "checkpoint_step segs ms cp = Inr ms'" and "Position_cp cp = Some p"
  shows "viewCheckpoint ms' segs (SegmentID_cp cp) = None \<or>
     (\<exists>d. viewCheckpoint ms' segs (SegmentID_cp cp) = Some (Some d) \<and> Timestamp p \<le> Timestamp d)"
  using assms
  by (auto simp: checkpoint_step_def viewCheckpoint_def getClonedSegment_def update_conv' Let_def
      split: option.splits if_splits)

lemma checkpoints_loop_none:
  "checkpoints_loop segs ms cps = Inr ms' \<Longrightarrow> viewCheckpoint ms segs x = None \<Longrightarrow>
   viewCheckpoint ms' segs x = None"
proof (induction cps arbitrary: ms)
  case Nil
  then show ?case by simp
next
  case (Cons cp cps)
  from Cons.prems(1) obtain ms1 where s: "checkpoint_step segs ms cp = Inr ms1"
    and l: "checkpoints_loop segs ms1 cps = Inr ms'"
    by (auto split: sum.splits)
  from checkpoint_step_view[OF s, of x] Cons.prems(2)
  have "viewCheckpoint ms1 segs x = None" by auto
  from Cons.IH[OF l this] show ?case .
qed

lemma checkpoints_loop_mono:
  "checkpoints_loop segs ms cps = Inr ms' \<Longrightarrow> viewCheckpoint ms segs x = Some (Some d) \<Longrightarrow>
   \<exists>d'. viewCheckpoint ms' segs x = Some (Some d') \<and> Timestamp d \<le> Timestamp d'"
proof (induction cps arbitrary: ms d)
  case Nil
  then show ?case by simp
next
  case (Cons cp cps)
  from Cons.prems(1) obtain ms1 where s: "checkpoint_step segs ms cp = Inr ms1"
    and l: "checkpoints_loop segs ms1 cps = Inr ms'"
    by (auto split: sum.splits)
  from checkpoint_step_view[OF s, of x] Cons.prems(2)
  obtain d1 where d1: "viewCheckpoint ms1 segs x = Some (Some d1)" "Timestamp d \<le> Timestamp d1"
    by auto
  from Cons.IH[OF l d1(1)] d1(2) show ?case by auto
qed

lemma checkpoints_loop_stale:
  "checkpoints_loop segs ms cps = Inr ms' \<Longrightarrow> cp \<in> set cps \<Longrightarrow> Position_cp cp = Some p \<Longrightarrow>
   viewCheckpoint ms' segs (SegmentID_cp cp) = None \<or>
   (\<exists>d. viewCheckpoint ms' segs (SegmentID_cp cp) = Some (Some d) \<and> Timestamp p \<le> Timestamp d)"
proof (induction cps arbitrary: ms)
  case Nil
  then show ?case by simp
next
  case (Cons c cps)
  from Cons.prems(1) obtain ms1 where s: "checkpoint_step segs ms c = Inr ms1"
    and l: "checkpoints_loop segs ms1 cps = Inr ms'"
    by (auto split: sum.splits)
  show ?case
  proof (cases "cp \<in> set cps")
    case True
    from Cons.IH[OF l True Cons.prems(3)] show ?thesis .
  next
    case False
    with Cons.prems(2) have "c = cp" by simp
    with checkpoint_step_stale[OF s] Cons.prems(3)
    have "viewCheckpoint ms1 segs (SegmentID_cp cp) = None \<or>
      (\<exists>d. viewCheckpoint ms1 segs (SegmentID_cp cp) = Some (Some d) \<and> Timestamp p \<le> Timestamp d)"
      by simp
    then show ?thesis
    proof
      assume "viewCheckpoint ms1 segs (SegmentID_cp cp) = None"
      from checkpoints_loop_none[OF l this] show ?thesis by simp
    next
      assume "\<exists>d. viewCheckpoint ms1 segs (SegmentID_cp cp) = Some (Some d) \<and> Timestamp p \<le> Timestamp d"
      then obtain d where d: "viewCheckpoint ms1 segs (SegmentID_cp cp) = Some (Some d)"
        "Timestamp p \<le> Timestamp d" by blast
      from checkpoints_loop_mono[OF l d(1)] d(2) show ?thesis by auto
    qed
  qed
qed

lemma checkpoints_loop_change:
  "checkpoints_loop segs ms cps = Inr ms' \<Longrightarrow> viewCheckpoint ms segs x = Some (Some d) \<Longrightarrow>
   viewCheckpoint ms' segs x = Some (Some d) \<or>
   (\<exists>cp \<in> set cps. \<exists>p. SegmentID_cp cp = x \<and> Position_cp cp = Some p \<and>
      viewCheckpoint ms' segs x = Some (Some p) \<and> Timestamp d < Timestamp p)"
proof (induction cps arbitrary: ms d)
  case Nil
  then show ?case by simp
next
  case (Cons c cps)
  from Cons.prems(1) obtain ms1 where s: "checkpoint_step segs ms c = Inr ms1"
    and l: "checkpoints_loop segs ms1 cps = Inr ms'"
    by (auto split: sum.splits)
  from checkpoint_step_view[OF s, of x] Cons.prems(2)
  consider (same) "viewCheckpoint ms1 segs x = Some (Some d)"
    | (new) p where "x = SegmentID_cp c" "Position_cp c = Some p"
        "viewCheckpoint ms1 segs x = Some (Some p)" "Timestamp d < Timestamp p"
    by auto
  then show ?case
  proof cases
    case same
    from Cons.IH[OF l same] show ?thesis by auto
  next
    case new
    from Cons.IH[OF l new(3)] new show ?thesis
      by (auto intro: less_trans)
  qed
qed

lemma checkpoints_loop_ignored:
  "(\<forall>cp \<in> set cps. viewCheckpoint ms segs (SegmentID_cp cp) = None \<or>
      (\<exists>d p. viewCheckpoint ms segs (SegmentID_cp cp) = Some (Some d) \<and>
             Position_cp cp = Some p \<and> Timestamp p \<le> Timestamp d)) \<Longrightarrow>
   checkpoints_loop segs ms cps = Inr ms"
proof (induction cps)
  case Nil
  then show ?case by simp
next
  case (Cons c cps)
  from Cons.prems have "checkpoint_step segs ms c = Inr ms"
    by (auto simp: checkpoint_step_def viewCheckpoint_def Let_def split: option.splits)
  with Cons show ?case by simp
qed

lemma startPosition_step_view:
  "viewCheckpoint (startPosition_step segs ms pos) segs x = viewCheckpoint ms segs x"
  by (auto simp: startPosition_step_def viewCheckpoint_def getClonedSegment_def update_conv'
      split: option.splits)

lemma startPositions_view:
  "viewCheckpoint (foldl (startPosition_step segs) ms sps) segs x = viewCheckpoint ms segs x"
  by (induction sps arbitrary: ms) (simp_all add: startPosition_step_view)

lemma DmlPosition_flushClone [simp]:
  "DmlPosition (flushClone seg fl dr bl sl dl now) = DmlPosition seg"
  by (simp add: flushClone_def Let_def)

lemma view_start:
  assumes i: "importRowCount imp sid (segments m) = Inr segs"
    and g: "GetSegment segs sid = Some seg1" and h: "isSegmentHealthy (Some seg1)"
    and v: "viewCheckpoint (foldl (startPosition_step segs)
              [(sid, flushClone seg1 fl dr bl sl dl now)] sps) segs x = Some v"
  shows "\<exists>s. GetSegment (segments m) x = Some s \<and> isSegmentHealthy (Some s) \<and> DmlPosition s = v"
proof -
  let ?F = "\<lambda>s. (DmlPosition s, State s)"
  from importRowCount_keep[of ?F, OF _ i, of x]
  have k: "map_option ?F (GetSegment segs x) = map_option ?F (GetSegment (segments m) x)"
    by simp
  from v have "viewCheckpoint [(sid, flushClone seg1 fl dr bl sl dl now)] segs x = Some v"
    by (simp add: startPositions_view)
  then have "\<exists>s. GetSegment segs x = Some s \<and> isSegmentHealthy (Some s) \<and> DmlPosition s = v"
    using g h
    by (auto simp: viewCheckpoint_def getClonedSegment_def split: option.splits if_splits)
  then obtain s where s: "GetSegment segs x = Some s" "isSegmentHealthy (Some s)"
    "DmlPosition s = v" by blast
  with k obtain s0 where "GetSegment (segments m) x = Some s0" "?F s0 = ?F s"
    by (cases "GetSegment (segments m) x") auto
  with s show ?thesis
    by (auto simp: isSegmentHealthy_def)
qed

lemma overlay_active:
  assumes "distinct (map fst ms)" and "getClonedSegment ms segs x = Some s"
  shows "GetSegment (setSegments ms segs) x = Some s"
proof -
  have m: "map_of (setSegments ms segs) = map_of segs ++ map_of ms"
    by (rule map_of_setSegments[OF assms(1)])
  show ?thesis
    using assms(2)
    by (auto simp: GetSegment_def m getClonedSegment_def map_add_def
        split: option.splits if_splits)
qed

lemma overlay_inactive:
  assumes "distinct (map fst ms)" and "getClonedSegment ms segs x = None"
  shows "GetSegment (setSegments ms segs) x = GetSegment segs x \<and>
   \<not> isSegmentHealthy (GetSegment segs x)"
proof -
  have m: "map_of (setSegments ms segs) = map_of segs ++ map_of ms"
    by (rule map_of_setSegments[OF assms(1)])
  show ?thesis
    using assms(2)
    by (auto simp: GetSegment_def m getClonedSegment_def map_add_def isSegmentHealthy_def
        split: option.splits if_splits)
qed

lemma flushModSegments_ignored:
  assumes i: "importRowCount imp sid (segments m) = Inr segs"
    and g: "GetSegment segs sid = Some seg1" and h: "isSegmentHealthy (Some seg1)"
    and st: "\<forall>cp \<in> set cps. notNewer (segments m) cp"
  shows "flushModSegments segs sid (flushClone seg1 fl dr bl sl dl now) cps sps
       = flushModSegments segs sid (flushClone seg1 fl dr bl sl dl now) [] sps"
proof -
  let ?ms1 = "foldl (startPosition_step segs) [(sid, flushClone seg1 fl dr bl sl dl now)] sps"
  have "checkpoints_loop segs ?ms1 cps = Inr ?ms1"
  proof (rule checkpoints_loop_ignored, rule ballI)
    fix cp assume cp: "cp \<in> set cps"
    show "viewCheckpoint ?ms1 segs (SegmentID_cp cp) = None \<or>
      (\<exists>d p. viewCheckpoint ?ms1 segs (SegmentID_cp cp) = Some (Some d) \<and>
             Position_cp cp = Some p \<and> Timestamp p \<le> Timestamp d)"
    proof (cases "viewCheckpoint ?ms1 segs (SegmentID_cp cp)")
      case None
      then show ?thesis by simp
    next
      case (Some v)
      from view_start[OF i g h Some]
      obtain s where s: "GetSegment (segments m) (SegmentID_cp cp) = Some s"
        "isSegmentHealthy (Some s)" "DmlPosition s = v" by blast
      from st cp have "notNewer (segments m) cp" by blast
      with s Some show ?thesis
        by (auto simp: notNewer_def split: option.splits)
    qed
  qed
  then show ?thesis by (simp add: flushModSegments_def)
qed

lemma UpdateFlushSegmentsInfo_ignored:
  assumes "\<forall>cp \<in> set cps. notNewer (segments m) cp"
  shows "UpdateFlushSegmentsInfo sid fl dr imp bl sl dl cps sps now m
       = UpdateFlushSegmentsInfo sid fl dr imp bl sl dl [] sps now m"
proof (cases "importRowCount imp sid (segments m)")
  case (Inl e)
  then show ?thesis by (simp add: UpdateFlushSegmentsInfo_def)
next
  case (Inr segs)
  show ?thesis
  proof (cases "GetSegment segs sid")
    case None
    with Inr show ?thesis by (simp add: UpdateFlushSegmentsInfo_def)
  next
    case (Some seg1)
    show ?thesis
    proof (cases "isSegmentHealthy (Some seg1)")
      case False
      with Inr Some show ?thesis by (simp add: UpdateFlushSegmentsInfo_def)
    next
      case True
      from flushModSegments_ignored[OF Inr Some True assms]
      show ?thesis using Inr Some True by (simp add: UpdateFlushSegmentsInfo_def)
    qed
  qed
qed

lemma stored_setSegments:
  assumes "distinct (map fst ms)"
  shows "map_option DmlPosition (GetSegment (setSegments ms segs) x)
       = (case viewCheckpoint ms segs x of
            Some v \<Rightarrow> Some v
          | None \<Rightarrow> map_option DmlPosition (GetSegment segs x))"
proof (cases "getClonedSegment ms segs x")
  case None
  with overlay_inactive[OF assms None] show ?thesis by (simp add: viewCheckpoint_def)
next
  case (Some s)
  with overlay_active[OF assms Some] show ?thesis by (simp add: viewCheckpoint_def)
qed

lemma UpdateFlushSegmentsInfo_no_checkpoints:
  "storedCheckpoint (snd (UpdateFlushSegmentsInfo sid fl dr imp bl sl dl [] sps now m)) x
     = storedCheckpoint m x"
proof (cases "importRowCount imp sid (segments m)")
  case (Inl e)
  then show ?thesis by (simp add: UpdateFlushSegmentsInfo_def)
next
  case (Inr segs)
  from importRowCount_keep[of DmlPosition, OF _ Inr, of x]
  have k: "map_option DmlPosition (GetSegment segs x) = storedCheckpoint m x"
    by (simp add: storedCheckpoint_def)
  show ?thesis
  proof (cases "GetSegment segs sid")
    case None
    with Inr k show ?thesis by (simp add: UpdateFlushSegmentsInfo_def storedCheckpoint_def)
  next
    case (Some seg1)
    show ?thesis
    proof (cases "isSegmentHealthy (Some seg1)")
      case False
      with Inr Some k show ?thesis
        by (simp add: UpdateFlushSegmentsInfo_def storedCheckpoint_def)
    next
      case True
      let ?ms1 = "foldl (startPosition_step segs) [(sid, flushClone seg1 fl dr bl sl dl now)] sps"
      have f: "flushModSegments segs sid (flushClone seg1 fl dr bl sl dl now) [] sps = Inr ?ms1"
        by (simp add: flushModSegments_def)
      have d: "distinct (map fst ?ms1)"
        by (rule startPositions_distinct) simp
      have "map_option DmlPosition (GetSegment (setSegments ?ms1 segs) x) = storedCheckpoint m x"
      proof (cases "viewCheckpoint ?ms1 segs x")
        case None
        with stored_setSegments[OF d, of segs x] k show ?thesis by simp
      next
        case (Some v)
        from view_start[OF Inr \<open>GetSegment segs sid = Some seg1\<close> True Some]
        have "storedCheckpoint m x = Some v" by (auto simp: storedCheckpoint_def)
        with stored_setSegments[OF d, of segs x] Some show ?thesis by simp
      qed
      then show ?thesis
        using Inr Some True f k
        by (auto simp: UpdateFlushSegmentsInfo_def storedCheckpoint_def split: prod.splits option.splits)
    qed
  qed
qed

lemma UpdateFlushSegmentsInfo_checkpoints:
  assumes g0: "GetSegment (segments m) sid = Some seg" and h0: "isSegmentHealthy (Some seg)"
    and ok: "fst (UpdateFlushSegmentsInfo sid fl dr imp bl sl dl cps sps now m) = None"
  shows "storedCheckpoint m x = Some (Some d) \<Longrightarrow>
      storedCheckpoint (snd (UpdateFlushSegmentsInfo sid fl dr imp bl sl dl cps sps now m)) x
        = Some (Some d) \<or>
      (\<exists>cp \<in> set cps. \<exists>p. SegmentID_cp cp = x \<and> Position_cp cp = Some p \<and>
         storedCheckpoint (snd (UpdateFlushSegmentsInfo sid fl dr imp bl sl dl cps sps now m)) x
           = Some (Some p) \<and>
         Timestamp d < Timestamp p)"
    and "\<forall>cp \<in> set cps. Position_cp cp \<noteq> None \<Longrightarrow>
      \<forall>cp \<in> set cps. notNewer
        (segments (snd (UpdateFlushSegmentsInfo sid fl dr imp bl sl dl cps sps now m))) cp"
proof -
  let ?m1 = "snd (UpdateFlushSegmentsInfo sid fl dr imp bl sl dl cps sps now m)"
  from UpdateFlushSegmentsInfo_success[OF ok g0 h0]
  obtain segs seg1 ms where
    i: "importRowCount imp sid (segments m) = Inr segs" and
    g: "GetSegment segs sid = Some seg1" and h: "isSegmentHealthy (Some seg1)" and
    f: "flushModSegments segs sid (flushClone seg1 fl dr bl sl dl now) cps sps = Inr ms" and
    r: "segments ?m1 = setSegments ms segs"
    by blast
  let ?ms1 = "foldl (startPosition_step segs) [(sid, flushClone seg1 fl dr bl sl dl now)] sps"
  from f have loop: "checkpoints_loop segs ?ms1 cps = Inr ms"
    by (simp add: flushModSegments_def)
  have d1: "distinct (map fst ?ms1)"
    by (rule startPositions_distinct) simp
  from checkpoints_loop_distinct[OF d1 loop] have dm: "distinct (map fst ms)" .
  have st: "\<And>y. storedCheckpoint ?m1 y
       = (case viewCheckpoint ms segs y of
            Some v \<Rightarrow> Some v
          | None \<Rightarrow> map_option DmlPosition (GetSegment segs y))"
    using stored_setSegments[OF dm, of segs] r by (simp add: storedCheckpoint_def)
  from importRowCount_keep[of DmlPosition, OF _ i]
  have k: "\<And>y. map_option DmlPosition (GetSegment segs y) = storedCheckpoint m y"
    by (simp add: storedCheckpoint_def)
  show "storedCheckpoint ?m1 x = Some (Some d) \<or>
      (\<exists>cp \<in> set cps. \<exists>p. SegmentID_cp cp = x \<and> Position_cp cp = Some p \<and>
         storedCheckpoint ?m1 x = Some (Some p) \<and> Timestamp d < Timestamp p)"
    if sd: "storedCheckpoint m x = Some (Some d)"
  proof (cases "viewCheckpoint ?ms1 segs x")
    case None
    from checkpoints_loop_none[OF loop None] st[of x] k[of x] sd
    show ?thesis by simp
  next
    case (Some v)
    from view_start[OF i g h Some] sd have "v = Some d"
      by (auto simp: storedCheckpoint_def)
    with Some have v1: "viewCheckpoint ?ms1 segs x = Some (Some d)" by simp
    from checkpoints_loop_change[OF loop v1] st[of x]
    show ?thesis by auto
  qed
  show "\<forall>cp \<in> set cps. notNewer (segments ?m1) cp"
    if pos: "\<forall>cp \<in> set cps. Position_cp cp \<noteq> None"
  proof
    fix cp assume cp: "cp \<in> set cps"
    with pos obtain p where p: "Position_cp cp = Some p" by auto
    from checkpoints_loop_stale[OF loop cp p]
    show "notNewer (segments ?m1) cp"
    proof
      assume "viewCheckpoint ms segs (SegmentID_cp cp) = None"
      then have "getClonedSegment ms segs (SegmentID_cp cp) = None"
        by (simp add: viewCheckpoint_def)
      from overlay_inactive[OF dm this] r show ?thesis
        by (auto simp: notNewer_def split: option.splits)
    next
      assume "\<exists>d. viewCheckpoint ms segs (SegmentID_cp cp) = Some (Some d) \<and>
        Timestamp p \<le> Timestamp d"
      then obtain d s where "getClonedSegment ms segs (SegmentID_cp cp) = Some s"
        "DmlPosition s = Some d" "Timestamp p \<le> Timestamp d"
        by (auto simp: viewCheckpoint_def)
      with overlay_active[OF dm this(1)] r p show ?thesis
        by (auto simp: notNewer_def)
    qed
  qed
qed

text \<open>
  C3. In \<^verbatim>\<open>UpdateFlushSegmentsInfo\<close>:
  \<^item> checkpoints that are not newer than the stored ones (an equal or older timestamp, or
    a segment the index does not hold as healthy) are ignored without an error: the call
    does exactly what the call without any checkpoint does;
  \<^item> after a successful call on a healthy segment, a stored checkpoint is either the one
    stored before or the position of an incoming checkpoint for that segment whose
    timestamp is strictly greater than the one stored before;
  \<^item> after such a call, whose checkpoints all carry a position, any further call with
    the same checkpoints leaves every stored checkpoint as the first call left it.
\<close>

theorem stale_checkpoint_ignored:
  "((\<forall>cp \<in> set cps. notNewer (segments m) cp) \<longrightarrow>
      UpdateFlushSegmentsInfo sid fl dr imp bl sl dl cps sps now m
        = UpdateFlushSegmentsInfo sid fl dr imp bl sl dl [] sps now m) \<and>
   (GetSegment (segments m) sid = Some seg \<and> isSegmentHealthy (Some seg) \<and>
    fst (UpdateFlushSegmentsInfo sid fl dr imp bl sl dl cps sps now m) = None \<longrightarrow>
      (\<forall>x d. storedCheckpoint m x = Some (Some d) \<longrightarrow>
         storedCheckpoint (snd (UpdateFlushSegmentsInfo sid fl dr imp bl sl dl cps sps now m)) x
           = Some (Some d) \<or>
         (\<exists>cp \<in> set cps. \<exists>p. SegmentID_cp cp = x \<and> Position_cp cp = Some p \<and>
            storedCheckpoint (snd (UpdateFlushSegmentsInfo sid fl dr imp bl sl dl cps sps now m)) x
              = Some (Some p) \<and>
            Timestamp d < Timestamp p)) \<and>
      ((\<forall>cp \<in> set cps. Position_cp cp \<noteq> None) \<longrightarrow>
         (\<forall>x. storedCheckpoint
                (snd (UpdateFlushSegmentsInfo sid' fl' dr' imp' bl' sl' dl' cps sps' now'
                   (snd (UpdateFlushSegmentsInfo sid fl dr imp bl sl dl cps sps now m)))) x
             = storedCheckpoint
                (snd (UpdateFlushSegmentsInfo sid fl dr imp bl sl dl cps sps now m)) x)))"
proof (intro conjI impI allI)
  assume "\<forall>cp \<in> set cps. notNewer (segments m) cp"
  then show "UpdateFlushSegmentsInfo sid fl dr imp bl sl dl cps sps now m
        = UpdateFlushSegmentsInfo sid fl dr imp bl sl dl [] sps now m"
    by (rule UpdateFlushSegmentsInfo_ignored)
next
  fix x d
  assume a: "GetSegment (segments m) sid = Some seg \<and> isSegmentHealthy (Some seg) \<and>
    fst (UpdateFlushSegmentsInfo sid fl dr imp bl sl dl cps sps now m) = None"
    and sd: "storedCheckpoint m x = Some (Some d)"
  from a have g: "GetSegment (segments m) sid = Some seg" and h: "isSegmentHealthy (Some seg)"
    and ok: "fst (UpdateFlushSegmentsInfo sid fl dr imp bl sl dl cps sps now m) = None"
    by simp_all
  show "storedCheckpoint (snd (UpdateFlushSegmentsInfo sid fl dr imp bl sl dl cps sps now m)) x
           = Some (Some d) \<or>
         (\<exists>cp \<in> set cps. \<exists>p. SegmentID_cp cp = x \<and> Position_cp cp = Some p \<and>
            storedCheckpoint (snd (UpdateFlushSegmentsInfo sid fl dr imp bl sl dl cps sps now m)) x
              = Some (Some p) \<and>
            Timestamp d < Timestamp p)"
    by (rule UpdateFlushSegmentsInfo_checkpoints(1)[OF g h ok sd])
next
  fix x
  let ?m1 = "snd (UpdateFlushSegmentsInfo sid fl dr imp bl sl dl cps sps now m)"
  assume a: "GetSegment (segments m) sid = Some seg \<and> isSegmentHealthy (Some seg) \<and>
    fst (UpdateFlushSegmentsInfo sid fl dr imp bl sl dl cps sps now m) = None"
    and pos: "\<forall>cp \<in> set cps. Position_cp cp \<noteq> None"
  from a have g: "GetSegment (segments m) sid = Some seg" and h: "isSegmentHealthy (Some seg)"
    and ok: "fst (UpdateFlushSegmentsInfo sid fl dr imp bl sl dl cps sps now m) = None"
    by simp_all
  have "\<forall>cp \<in> set cps. notNewer (segments ?m1) cp"
    by (rule UpdateFlushSegmentsInfo_checkpoints(2)[OF g h ok pos])
  from UpdateFlushSegmentsInfo_ignored[OF this]
  have "UpdateFlushSegmentsInfo sid' fl' dr' imp' bl' sl' dl' cps sps' now' ?m1
      = UpdateFlushSegmentsInfo sid' fl' dr' imp' bl' sl' dl' [] sps' now' ?m1" .
  then show "storedCheckpoint
      (snd (UpdateFlushSegmentsInfo sid' fl' dr' imp' bl' sl' dl' cps sps' now' ?m1)) x
      = storedCheckpoint ?m1 x"
    by (simp add: UpdateFlushSegmentsInfo_no_checkpoints)
qed

theorem stale_checkpoint_ignored_witness:
  "GetSegment (segments ex_meta_cp) 1 = Some (ex_segment\<lparr>DmlPosition := Some (ex_position 10)\<rparr>) \<and>
   isSegmentHealthy (Some (ex_segment\<lparr>DmlPosition := Some (ex_position 10)\<rparr>)) \<and>
   fst (UpdateFlushSegmentsInfo 1 False False False [] [] [] [ex_checkpoint 20 7] [] 0 ex_meta_cp)
     = None \<and>
   storedCheckpoint ex_meta_cp 1 = Some (Some (ex_position 10)) \<and>
   storedCheckpoint
     (snd (UpdateFlushSegmentsInfo 1 False False False [] [] [] [ex_checkpoint 20 7] [] 0 ex_meta_cp)) 1
     = Some (Some (ex_position 20)) \<and>
   storedCheckpoint
     (snd (UpdateFlushSegmentsInfo 1 False False False [] [] [] [ex_checkpoint 20 7] [] 1
        (snd (UpdateFlushSegmentsInfo 1 False False False [] [] [] [ex_checkpoint 20 7] [] 0
           ex_meta_cp)))) 1
     = Some (Some (ex_position 20)) \<and>
   notNewer (segments ex_meta_cp) (ex_checkpoint 10 3) \<and>
   UpdateFlushSegmentsInfo 1 False False False [] [] [] [ex_checkpoint 10 3] [] 0 ex_meta_cp
     = UpdateFlushSegmentsInfo 1 False False False [] [] [] [] [] 0 ex_meta_cp"
proof -
  have g: "GetSegment (segments ex_meta_cp) 1
      = Some (ex_segment\<lparr>DmlPosition := Some (ex_position 10)\<rparr>)"
    by (simp add: ex_meta_cp_def GetSegment_def)
  have h: "isSegmentHealthy (Some (ex_segment\<lparr>DmlPosition := Some (ex_position 10)\<rparr>))"
    by (simp add: ex_segment_def isSegmentHealthy_def)
  have ok: "fst (UpdateFlushSegmentsInfo 1 False False False [] [] [] [ex_checkpoint 20 7] [] 0
      ex_meta_cp) = None"
    by (simp add: ufsi_eval ex_eval ex_meta_cp_def ex_checkpoint_def)
  have s0: "storedCheckpoint ex_meta_cp 1 = Some (Some (ex_position 10))"
    by (simp add: storedCheckpoint_def g)
  have s1: "storedCheckpoint
     (snd (UpdateFlushSegmentsInfo 1 False False False [] [] [] [ex_checkpoint 20 7] [] 0 ex_meta_cp)) 1
     = Some (Some (ex_position 20))"
    by (simp add: storedCheckpoint_def ufsi_eval ex_eval ex_meta_cp_def ex_checkpoint_def)
  have n: "notNewer (segments ex_meta_cp) (ex_checkpoint 10 3)"
    by (simp add: notNewer_def GetSegment_def isSegmentHealthy_def ex_eval ex_meta_cp_def
        ex_checkpoint_def)
  have p: "\<forall>cp \<in> set [ex_checkpoint 20 7]. Position_cp cp \<noteq> None"
    by (simp add: ex_checkpoint_def)
  show ?thesis
    using g h ok s0 s1 n p
      stale_checkpoint_ignored [where m = ex_meta_cp and sid = 1 and fl = False and dr = False
        and imp = False and bl = "[]" and sl = "[]" and dl = "[]"
        and cps = "[ex_checkpoint 10 3]" and sps = "[]" and now = 0]
      stale_checkpoint_ignored [where m = ex_meta_cp and sid = 1 and fl = False and dr = False
        and imp = False and bl = "[]" and sl = "[]" and dl = "[]"
        and cps = "[ex_checkpoint 20 7]" and sps = "[]" and now = 0
        and seg = "ex_segment\<lparr>DmlPosition := Some (ex_position 10)\<rparr>"
        and sid' = 1 and fl' = False and dr' = False and imp' = False and bl' = "[]"
        and sl' = "[]" and dl' = "[]" and sps' = "[]" and now' = 1]
    by simp
qed

subsection \<open>\<^verbatim>\<open>UpdateDropChannelSegmentInfo\<close>\<close>























lemma set_update_cases:
  "(k', v') \<in> set (AList.update k v al) \<Longrightarrow> (k', v') = (k, v) \<or> (k', v') \<in> set al"
  by (induction al) (auto split: if_splits)














subsection \<open>Compaction\<close>

lemma compactionSources_fst:
  "map fst (compactionSources segs clock n logs) = foundSources segs logs"
  by (induction logs arbitrary: n) (auto simp: foundSources_def split: option.splits)

lemma compactionSources_dropped:
  "list_all2 (\<lambda>a b. \<exists>t. b = a\<lparr>State := Dropped, DroppedAt := t\<rparr>)
     (map fst (compactionSources segs clock n logs)) (map snd (compactionSources segs clock n logs))"
  by (induction logs arbitrary: n) (auto split: option.splits)

lemma compactionSources_snd:
  "map snd (compactionSources segs clock n logs)
     = map (\<lambda>(i, a). a\<lparr>State := Dropped, DroppedAt := clock i\<rparr>)
         (enumerate n (foundSources segs logs))"
  by (induction logs arbitrary: n) (auto simp: foundSources_def split: option.splits)

lemma earlierPosition_fold:
  "isEarliest (foldl earlierPosition acc ps) (acc # ps)"
proof (induction ps arbitrary: acc)
  case Nil
  then show ?case by (cases acc) (simp_all add: isEarliest_def)
next
  case (Cons p ps)
  from Cons[of "earlierPosition acc p"]
  show ?case
    by (auto simp: isEarliest_def earlierPosition_def list_all_iff split: option.splits if_splits)
qed

lemma earlierPosition_None:
  "isEarliest (foldl earlierPosition None ps) ps"
  using earlierPosition_fold[of None ps]
  by (auto simp: isEarliest_def list_all_iff split: option.splits)

lemma logs_build:
  "(\<forall>(p, b) \<in> set acc. LogPath b = p) \<Longrightarrow>
   (\<forall>(p, b) \<in> set (foldl (\<lambda>logs d. AList.update (LogPath d) d logs) acc bs). LogPath b = p) \<and>
   fst ` set (foldl (\<lambda>logs d. AList.update (LogPath d) d logs) acc bs)
     = fst ` set acc \<union> LogPath ` set bs"
proof (induction bs arbitrary: acc)
  case Nil
  then show ?case by simp
next
  case (Cons d bs)
  have "\<forall>(p, b) \<in> set (AList.update (LogPath d) d acc). LogPath b = p"
    using Cons.prems by (auto dest!: set_update_cases)
  from Cons.IH[OF this] show ?case
    by (auto simp: dom_update)
qed

lemma logs_delete:
  "set (foldl (\<lambda>l r. AList.delete (LogPath r) l) logs rs)
     = {e \<in> set logs. fst e \<notin> LogPath ` set rs}"
  by (induction rs arbitrary: logs) (auto simp: AList.delete_eq)

lemma logs_remove:
  "set (foldl (removeLogs fbl) logs removes)
     = {e \<in> set logs. (FieldID fbl, fst e) \<notin> fieldPaths removes}"
proof (induction removes arbitrary: logs)
  case Nil
  then show ?case by (simp add: fieldPaths_def)
next
  case (Cons r removes)
  have "fieldPaths (r # removes) = {(FieldID r, LogPath b) | b. b \<in> set (Binlogs_fb r)} \<union> fieldPaths removes"
    by (auto simp: fieldPaths_def)
  then show ?case
    using Cons[of "removeLogs fbl logs r"]
    by (auto simp: removeLogs_def logs_delete)
qed

lemma fieldPaths_append: "fieldPaths (xs @ ys) = fieldPaths xs \<union> fieldPaths ys"
  by (auto simp: fieldPaths_def)

lemma fieldPaths_Nil [simp]: "fieldPaths [] = {}"
  by (simp add: fieldPaths_def)

lemma fieldPaths_concat: "fieldPaths (concat xss) = (\<Union>xs \<in> set xss. fieldPaths xs)"
  by (induction xss) (simp_all add: fieldPaths_append)

lemma updateDeltalogs_entry:
  fixes fbl :: FieldBinlog and removes :: "FieldBinlog list"
  defines "L \<equiv> foldl (removeLogs fbl)
      (foldl (\<lambda>logs d. AList.update (LogPath d) d logs) [] (Binlogs_fb fbl)) removes"
  shows "fieldPaths (if length (map snd L) > 0
           then [\<lparr>FieldID = FieldID fbl, Binlogs_fb = map snd L\<rparr>] else [])
      = {(FieldID fbl, p) | p. p \<in> LogPath ` set (Binlogs_fb fbl) \<and>
           (FieldID fbl, p) \<notin> fieldPaths removes}"
proof -
  define B where "B = foldl (\<lambda>logs d. AList.update (LogPath d) d logs) [] (Binlogs_fb fbl)"
  from logs_build[of "[]" "Binlogs_fb fbl"]
  have inv: "\<And>p b. (p, b) \<in> set B \<Longrightarrow> LogPath b = p"
    and keys: "fst ` set B = LogPath ` set (Binlogs_fb fbl)"
    unfolding B_def by auto
  have L: "set L = {e \<in> set B. (FieldID fbl, fst e) \<notin> fieldPaths removes}"
    unfolding L_def B_def by (rule logs_remove)
  have out: "fieldPaths (if length (map snd L) > 0
           then [\<lparr>FieldID = FieldID fbl, Binlogs_fb = map snd L\<rparr>] else [])
      = {(FieldID fbl, LogPath b) | b. b \<in> snd ` set L}"
    by (cases L) (auto simp: fieldPaths_def)
  show ?thesis
    unfolding out
  proof (intro set_eqI iffI)
    fix x assume "x \<in> {(FieldID fbl, LogPath b) | b. b \<in> snd ` set L}"
    then obtain p b where x: "x = (FieldID fbl, LogPath b)" and pb: "(p, b) \<in> set L"
      by auto
    from pb L have m: "(p, b) \<in> set B" and nr: "(FieldID fbl, p) \<notin> fieldPaths removes"
      by auto
    from inv[OF m] have e: "LogPath b = p" .
    from m have "p \<in> fst ` set B" by force
    with keys e nr x
    show "x \<in> {(FieldID fbl, p) | p. p \<in> LogPath ` set (Binlogs_fb fbl) \<and>
           (FieldID fbl, p) \<notin> fieldPaths removes}"
      by simp
  next
    fix x assume "x \<in> {(FieldID fbl, p) | p. p \<in> LogPath ` set (Binlogs_fb fbl) \<and>
           (FieldID fbl, p) \<notin> fieldPaths removes}"
    then obtain p where x: "x = (FieldID fbl, p)" and p: "p \<in> LogPath ` set (Binlogs_fb fbl)"
      and nr: "(FieldID fbl, p) \<notin> fieldPaths removes"
      by auto
    from p keys have "p \<in> fst ` set B" by simp
    then obtain b where m: "(p, b) \<in> set B" by force
    with nr L have "(p, b) \<in> set L" by simp
    then have "b \<in> snd ` set L" by force
    moreover from inv[OF m] have "LogPath b = p" .
    ultimately show "x \<in> {(FieldID fbl, LogPath b) | b. b \<in> snd ` set L}"
      using x by blast
  qed
qed

lemma updateDeltalogs_fieldPaths:
  "fieldPaths (updateDeltalogs origin removes adds) = fieldPaths origin - fieldPaths removes"
proof -
  have "fieldPaths (updateDeltalogs origin removes adds)
      = (\<Union>fbl \<in> set origin. {(FieldID fbl, p) | p. p \<in> LogPath ` set (Binlogs_fb fbl) \<and>
           (FieldID fbl, p) \<notin> fieldPaths removes})"
  proof -
    have c: "fieldPaths (concat (map f origin)) = (\<Union>fbl \<in> set origin. fieldPaths (f fbl))"
      for f :: "FieldBinlog \<Rightarrow> FieldBinlog list"
      by (simp add: fieldPaths_concat)
    show ?thesis
      unfolding updateDeltalogs_def Let_def c updateDeltalogs_entry ..
  qed
  also have "\<dots> = fieldPaths origin - fieldPaths removes"
  proof (intro set_eqI iffI)
    fix x assume "x \<in> (\<Union>fbl \<in> set origin. {(FieldID fbl, p) | p.
        p \<in> LogPath ` set (Binlogs_fb fbl) \<and> (FieldID fbl, p) \<notin> fieldPaths removes})"
    then obtain fbl b where "fbl \<in> set origin" "b \<in> set (Binlogs_fb fbl)"
      "x = (FieldID fbl, LogPath b)" "x \<notin> fieldPaths removes"
      by auto
    then show "x \<in> fieldPaths origin - fieldPaths removes"
      unfolding fieldPaths_def[of origin] by blast
  next
    fix x assume "x \<in> fieldPaths origin - fieldPaths removes"
    then obtain fbl b where "fbl \<in> set origin" "b \<in> set (Binlogs_fb fbl)"
      "x = (FieldID fbl, LogPath b)" "x \<notin> fieldPaths removes"
      unfolding fieldPaths_def[of origin] by blast
    then show "x \<in> (\<Union>fbl \<in> set origin. {(FieldID fbl, p) | p.
        p \<in> LogPath ` set (Binlogs_fb fbl) \<and> (FieldID fbl, p) \<notin> fieldPaths removes})"
      by blast
  qed
  finally show ?thesis .
qed

lemma compactionSources_map:
  assumes "\<And>s t. f (s\<lparr>State := Dropped, DroppedAt := t\<rparr>) = f s"
  shows "map f (map snd (compactionSources segs clock n logs))
       = map f (map fst (compactionSources segs clock n logs))"
  by (induction logs arbitrary: n) (auto simp: assms split: option.splits)

lemma GetCompleteCompactionMeta_Inr:
  assumes "fst (GetCompleteCompactionMeta logs result clock m) = Inr (old, mods, new)"
  shows "old = foundSources (segments m) logs"
    and "mods = map snd (compactionSources (segments m) clock 0 logs)"
    and "ID new = SegmentID_cr result" and "NumOfRows new = NumOfRows_cr result"
    and "State new = Flushing"
    and "Binlogs new = InsertLogs result" and "Statslogs new = Field2StatslogPaths result"
    and "CompactionFrom new = map ID old"
    and "StartPosition new = foldl earlierPosition None (map StartPosition old)"
    and "DmlPosition new = foldl earlierPosition None (map DmlPosition old)"
    and "Deltalogs new = Deltalogs_cr result @
           updateDeltalogs (concat (map Deltalogs old)) (concat (map Deltalogs_cl logs)) []"
proof -
  let ?src = "compactionSources (segments m) clock 0 logs"
  have e: "map f (map snd ?src) = map f (foundSources (segments m) logs)"
    if "\<And>s t. f (s\<lparr>State := Dropped, DroppedAt := t\<rparr>) = f s" for f :: "SegmentInfo \<Rightarrow> 'b"
    using compactionSources_map[of f, OF that] by (simp add: compactionSources_fst)
  from assms obtain first others where ne: "map snd ?src = first # others"
    by (cases "map snd ?src") (auto simp: GetCompleteCompactionMeta_def Let_def)
  from assms ne have old: "old = foundSources (segments m) logs"
    and mods: "mods = map snd ?src"
    by (auto simp: GetCompleteCompactionMeta_def Let_def compactionSources_fst)
  show "old = foundSources (segments m) logs" by (rule old)
  show "mods = map snd ?src" by (rule mods)
  from assms ne show "ID new = SegmentID_cr result" "NumOfRows new = NumOfRows_cr result"
    "State new = Flushing" "Binlogs new = InsertLogs result"
    "Statslogs new = Field2StatslogPaths result"
    by (auto simp: GetCompleteCompactionMeta_def Let_def)
  from assms ne have "CompactionFrom new = map ID (map snd ?src)"
    "StartPosition new = foldl earlierPosition None (map StartPosition (map snd ?src))"
    "DmlPosition new = foldl earlierPosition None (map DmlPosition (map snd ?src))"
    "Deltalogs new = Deltalogs_cr result @
       updateDeltalogs (concat (map Deltalogs (map snd ?src))) (concat (map Deltalogs_cl logs)) []"
    by (auto simp: GetCompleteCompactionMeta_def Let_def)
  then show "CompactionFrom new = map ID old"
    "StartPosition new = foldl earlierPosition None (map StartPosition old)"
    "DmlPosition new = foldl earlierPosition None (map DmlPosition old)"
    "Deltalogs new = Deltalogs_cr result @
       updateDeltalogs (concat (map Deltalogs old)) (concat (map Deltalogs_cl logs)) []"
    unfolding old
    using e[of ID] e[of StartPosition] e[of DmlPosition] e[of Deltalogs]
    by simp_all
qed

text \<open>
  C6. \<^verbatim>\<open>GetCompleteCompactionMeta\<close> leaves the catalog state as it is. When the index
  holds at least one of the compaction sources it returns a result, and a result it
  returns consists of:
  \<^item> the sources found in the index, as they are, and, one for one, the same segments
    marked dropped, each with the reading of the clock made for it as its drop
    timestamp (the clock is read once per found source, in their order);
  \<^item> a new segment in state \<open>Flushing\<close> with the id, row count, binlogs and statslogs of
    the compaction result, whose \<open>compactionFrom\<close> lists the ids of the found sources,
    whose start position and checkpoint are the earliest ones among the sources, and
    whose deltalogs are those of the compaction result followed by the deltalogs of the
    sources without the ones, by field and path, that the compaction logs list (the
    order of the kept logs within an entry is left open).
\<close>

theorem GetCompleteCompactionMeta_result:
  "snd (GetCompleteCompactionMeta logs result clock m) = m \<and>
   (foundSources (segments m) logs \<noteq> [] \<longrightarrow>
      (\<exists>r. fst (GetCompleteCompactionMeta logs result clock m) = Inr r)) \<and>
   (fst (GetCompleteCompactionMeta logs result clock m) = Inr (old, mods, new) \<longrightarrow>
      old = foundSources (segments m) logs \<and>
      mods = map (\<lambda>(i, a). a\<lparr>State := Dropped, DroppedAt := clock i\<rparr>) (enumerate 0 old) \<and>
      ID new = SegmentID_cr result \<and>
      NumOfRows new = NumOfRows_cr result \<and>
      State new = Flushing \<and>
      Binlogs new = InsertLogs result \<and>
      Statslogs new = Field2StatslogPaths result \<and>
      CompactionFrom new = map ID old \<and>
      isEarliest (StartPosition new) (map StartPosition old) \<and>
      isEarliest (DmlPosition new) (map DmlPosition old) \<and>
      (\<exists>added. Deltalogs new = Deltalogs_cr result @ added \<and>
         entryLogs added
           = entryLogs (updateDeltalogs (concat (map Deltalogs old))
               (concat (map Deltalogs_cl logs)) []) \<and>
         fieldPaths added
           = fieldPaths (concat (map Deltalogs old))
               - fieldPaths (concat (map Deltalogs_cl logs))) \<and>
      fieldPaths (Deltalogs new)
        = fieldPaths (Deltalogs_cr result) \<union>
          (fieldPaths (concat (map Deltalogs old))
            - fieldPaths (concat (map Deltalogs_cl logs))))"
proof (intro conjI impI)
  show "snd (GetCompleteCompactionMeta logs result clock m) = m"
    by (simp add: GetCompleteCompactionMeta_def Let_def split: list.splits)
next
  assume "foundSources (segments m) logs \<noteq> []"
  then have "map snd (compactionSources (segments m) clock 0 logs) \<noteq> []"
    using compactionSources_fst[of "segments m" clock 0 logs] by auto
  then show "\<exists>r. fst (GetCompleteCompactionMeta logs result clock m) = Inr r"
    by (cases "map snd (compactionSources (segments m) clock 0 logs)")
      (auto simp: GetCompleteCompactionMeta_def Let_def)
next
  assume a: "fst (GetCompleteCompactionMeta logs result clock m) = Inr (old, mods, new)"
  note r = GetCompleteCompactionMeta_Inr[OF a]
  show "old = foundSources (segments m) logs" by (rule r)
  show "mods = map (\<lambda>(i, a). a\<lparr>State := Dropped, DroppedAt := clock i\<rparr>) (enumerate 0 old)"
    unfolding r(1) r(2) by (rule compactionSources_snd)
  show "ID new = SegmentID_cr result" "NumOfRows new = NumOfRows_cr result"
    "State new = Flushing" "Binlogs new = InsertLogs result"
    "Statslogs new = Field2StatslogPaths result" "CompactionFrom new = map ID old"
    by (rule r)+
  show "isEarliest (StartPosition new) (map StartPosition old)"
    unfolding r(9) by (rule earlierPosition_None)
  show "isEarliest (DmlPosition new) (map DmlPosition old)"
    unfolding r(10) by (rule earlierPosition_None)
  show "\<exists>added. Deltalogs new = Deltalogs_cr result @ added \<and>
         entryLogs added
           = entryLogs (updateDeltalogs (concat (map Deltalogs old))
               (concat (map Deltalogs_cl logs)) []) \<and>
         fieldPaths added
           = fieldPaths (concat (map Deltalogs old))
               - fieldPaths (concat (map Deltalogs_cl logs))"
    using r(11) updateDeltalogs_fieldPaths by blast
  show "fieldPaths (Deltalogs new)
        = fieldPaths (Deltalogs_cr result) \<union>
          (fieldPaths (concat (map Deltalogs old))
            - fieldPaths (concat (map Deltalogs_cl logs)))"
    unfolding r(11) by (simp add: fieldPaths_append updateDeltalogs_fieldPaths)
qed

lemmas compact_eval = ex_meta_compact_def ex_logs_def ex_result_def ex_segment_a_def
  ex_segment_b_def ex_clock_def ex_eval

theorem GetCompleteCompactionMeta_result_witness:
  "foundSources (segments ex_meta_compact) ex_logs \<noteq> [] \<and>
   (\<exists>old mods new.
      fst (GetCompleteCompactionMeta ex_logs (ex_result 5) ex_clock ex_meta_compact)
        = Inr (old, mods, new) \<and>
      old = [ex_segment_a, ex_segment_b] \<and>
      mods = [ex_segment_a\<lparr>State := Dropped, DroppedAt := 1000\<rparr>,
              ex_segment_b\<lparr>State := Dropped, DroppedAt := 1001\<rparr>] \<and>
      State new = Flushing \<and>
      CompactionFrom new = [1, 3] \<and>
      StartPosition new = Some (ex_position 5) \<and>
      DmlPosition new = Some (ex_position 7) \<and>
      entryLogs (Deltalogs new) = [(0, {#ex_binlog ''r''#}), (0, {#ex_binlog ''d2''#})])"
proof -
  have ne: "foundSources (segments ex_meta_compact) ex_logs \<noteq> []"
    by (simp add: foundSources_def GetSegment_def compact_eval)
  from GetCompleteCompactionMeta_result [where logs = ex_logs and result = "ex_result 5"
      and clock = ex_clock and m = ex_meta_compact,
      THEN conjunct2, THEN conjunct1, THEN mp, OF ne]
  obtain r where r: "fst (GetCompleteCompactionMeta ex_logs (ex_result 5) ex_clock ex_meta_compact)
    = Inr r" ..
  obtain old mods new where t: "r = (old, mods, new)" by (cases r)
  note p = GetCompleteCompactionMeta_result [where logs = ex_logs and result = "ex_result 5"
      and clock = ex_clock and m = ex_meta_compact and old = old and mods = mods and new = new, THEN conjunct2, THEN conjunct2, THEN mp, OF r[unfolded t]]
  from p have old: "old = [ex_segment_a, ex_segment_b]"
    by (simp add: foundSources_def GetSegment_def ex_meta_compact_def ex_logs_def)
  from p old have st: "mods = [ex_segment_a\<lparr>State := Dropped, DroppedAt := 1000\<rparr>,
              ex_segment_b\<lparr>State := Dropped, DroppedAt := 1001\<rparr>]"
    by (simp add: ex_clock_def)
  from p old have cf: "State new = Flushing" "CompactionFrom new = [1, 3]"
    by (simp_all add: ex_segment_a_def ex_segment_b_def ex_segment_def)
  from p old have sp: "StartPosition new = Some (ex_position 5)"
    by (auto simp: isEarliest_def ex_segment_a_def ex_segment_b_def ex_position_def
        split: option.splits)
  from p old have dp: "DmlPosition new = Some (ex_position 7)"
    by (auto simp: isEarliest_def ex_segment_a_def ex_segment_b_def ex_position_def
        split: option.splits)
  from p obtain added where ad: "Deltalogs new = Deltalogs_cr (ex_result 5) @ added"
    "entryLogs added
       = entryLogs (updateDeltalogs (concat (map Deltalogs old))
           (concat (map Deltalogs_cl ex_logs)) [])"
    by blast
  from ad old have dl:
    "entryLogs (Deltalogs new) = [(0, {#ex_binlog ''r''#}), (0, {#ex_binlog ''d2''#})]"
    by (simp add: entryLogs_def updateDeltalogs_def removeLogs_def Let_def compact_eval)
  from r[unfolded t] old st cf sp dp dl ne show ?thesis by simp
qed

lemma alterInMemory_map_of:
  "GetSegment (segments (alterInMemoryMetaAfterCompaction new mods m)) k
     = (if NumOfRows new > 0 \<and> k = ID new then Some new
        else (map_of (segments m) ++ map_of (rev (map (\<lambda>s. (ID s, s)) mods))) k)"
proof -
  have "foldl (\<lambda>si s. SetSegment (ID s) s si) segs mods
      = foldl (\<lambda>si (k, s). SetSegment k s si) segs (map (\<lambda>s. (ID s, s)) mods)" for segs
    by (induction mods arbitrary: segs) simp_all
  then have e: "map_of (foldl (\<lambda>si s. SetSegment (ID s) s si) (segments m) mods)
      = map_of (segments m) ++ map_of (rev (map (\<lambda>s. (ID s, s)) mods))"
    by (simp only: map_of_setSegments_aux)
  show ?thesis
    unfolding alterInMemoryMetaAfterCompaction_def Let_def GetSegment_def
    by (simp add: e SetSegment_def[of "ID new"] update_conv')
qed

lemma foundSources_mem:
  "s \<in> set (foundSources segs logs) \<longleftrightarrow>
   (\<exists>cl \<in> set logs. GetSegment segs (SegmentID_cl cl) = Some s)"
  by (induction logs) (auto simp: foundSources_def split: option.splits)

lemma foundSources_ids:
  assumes "\<forall>cl \<in> set logs. \<forall>s. GetSegment segs (SegmentID_cl cl) = Some s \<longrightarrow> ID s = SegmentID_cl cl"
  shows "map ID (foundSources segs logs)
       = filter (\<lambda>k. GetSegment segs k \<noteq> None) (map SegmentID_cl logs)"
  using assms by (induction logs) (auto simp: foundSources_def)

lemma map_of_key_mem:
  "k \<in> fst ` set xs \<Longrightarrow> \<exists>v. map_of xs k = Some v \<and> (k, v) \<in> set xs"
  by (cases "map_of xs k") (auto simp: map_of_eq_None_iff dest: map_of_SomeD)

text \<open>
  C5. Let \<^verbatim>\<open>GetCompleteCompactionMeta\<close> return a result for compaction logs whose
  sources are stored in the index under their own ids, and let the id of the compaction
  result be none of the source ids. After \<^verbatim>\<open>alterInMemoryMetaAfterCompaction\<close> is
  applied to that result, every source found in the index is the same segment marked
  dropped. If the row count of the result is positive, the index holds the new segment
  under its id, with \<open>compactionFrom\<close> the list of the ids of the found sources; if it
  is not, the index holds under that id what it held before.
\<close>

theorem compaction_applied:
  assumes keyed: "\<forall>cl \<in> set logs. \<forall>s. GetSegment (segments m) (SegmentID_cl cl) = Some s \<longrightarrow>
        ID s = SegmentID_cl cl"
    and res: "fst (GetCompleteCompactionMeta logs result clock m) = Inr (old, mods, new)"
    and fresh: "SegmentID_cr result \<notin> SegmentID_cl ` set logs"
  shows "(\<forall>cl \<in> set logs. \<forall>s. GetSegment (segments m) (SegmentID_cl cl) = Some s \<longrightarrow>
            (\<exists>t. GetSegment (segments (alterInMemoryMetaAfterCompaction new mods m))
                    (SegmentID_cl cl)
                  = Some (s\<lparr>State := Dropped, DroppedAt := t\<rparr>))) \<and>
         (NumOfRows_cr result > 0 \<longrightarrow>
            GetSegment (segments (alterInMemoryMetaAfterCompaction new mods m))
              (SegmentID_cr result) = Some new \<and>
            CompactionFrom new
              = filter (\<lambda>k. GetSegment (segments m) k \<noteq> None) (map SegmentID_cl logs)) \<and>
         (NumOfRows_cr result \<le> 0 \<longrightarrow>
            GetSegment (segments (alterInMemoryMetaAfterCompaction new mods m))
              (SegmentID_cr result)
            = GetSegment (segments m) (SegmentID_cr result))"
proof -
  note r = GetCompleteCompactionMeta_Inr[OF res]
  let ?pairs = "rev (map (\<lambda>s. (ID s, s)) mods)"
  have la: "list_all2 (\<lambda>a b. \<exists>t. b = a\<lparr>State := Dropped, DroppedAt := t\<rparr>) old mods"
    unfolding r(1) r(2)
    using compactionSources_dropped[of "segments m" clock 0 logs]
    by (simp add: compactionSources_fst)
  have mods_old: "\<exists>a \<in> set old. \<exists>t. b = a\<lparr>State := Dropped, DroppedAt := t\<rparr>"
    if "b \<in> set mods" for b
  proof -
    from la have len: "length old = length mods" by (rule list_all2_lengthD)
    from in_set_impl_in_set_zip2[OF len that] obtain a where z: "(a, b) \<in> set (zip old mods)"
      by blast
    with la have "\<exists>t. b = a\<lparr>State := Dropped, DroppedAt := t\<rparr>"
      by (auto simp: list_all2_iff)
    with set_zip_leftD[OF z] show ?thesis by blast
  qed
  have old_mods: "\<exists>b \<in> set mods. \<exists>t. b = a\<lparr>State := Dropped, DroppedAt := t\<rparr>"
    if "a \<in> set old" for a
  proof -
    from la have len: "length old = length mods" by (rule list_all2_lengthD)
    from in_set_impl_in_set_zip1[OF len that] obtain b where z: "(a, b) \<in> set (zip old mods)"
      by blast
    with la have "\<exists>t. b = a\<lparr>State := Dropped, DroppedAt := t\<rparr>"
      by (auto simp: list_all2_iff)
    with set_zip_rightD[OF z] show ?thesis by blast
  qed
  have old_key: "\<exists>cl \<in> set logs. GetSegment (segments m) (SegmentID_cl cl) = Some a \<and>
      ID a = SegmentID_cl cl" if "a \<in> set old" for a
    using that keyed unfolding r(1) foundSources_mem by blast
  have nk: "ID new \<noteq> SegmentID_cl cl" if "cl \<in> set logs" for cl
    using fresh that r(3) by auto
  have first: "\<exists>t. GetSegment (segments (alterInMemoryMetaAfterCompaction new mods m))
      (SegmentID_cl cl) = Some (s\<lparr>State := Dropped, DroppedAt := t\<rparr>)"
    if cl: "cl \<in> set logs" and g: "GetSegment (segments m) (SegmentID_cl cl) = Some s" for cl s
  proof -
    from cl g have "s \<in> set old" unfolding r(1) foundSources_mem by blast
    from old_mods[OF this] obtain b t where b: "b \<in> set mods"
      "b = s\<lparr>State := Dropped, DroppedAt := t\<rparr>" by blast
    from keyed cl g have "ID s = SegmentID_cl cl" by blast
    with b have "SegmentID_cl cl \<in> fst ` set ?pairs" by force
    from map_of_key_mem[OF this] obtain v where v: "map_of ?pairs (SegmentID_cl cl) = Some v"
      "(SegmentID_cl cl, v) \<in> set ?pairs" by blast
    then have vm: "v \<in> set mods" and vid: "ID v = SegmentID_cl cl" by auto
    from mods_old[OF vm] obtain a t' where a: "a \<in> set old"
      "v = a\<lparr>State := Dropped, DroppedAt := t'\<rparr>" by blast
    from old_key[OF a(1)] obtain cl' where "cl' \<in> set logs"
      "GetSegment (segments m) (SegmentID_cl cl') = Some a" "ID a = SegmentID_cl cl'" by blast
    with vid a(2) g have "a = s" by simp
    with v(1) a(2) nk[OF cl] show ?thesis
      by (auto simp: alterInMemory_map_of map_add_def)
  qed
  have second: "GetSegment (segments (alterInMemoryMetaAfterCompaction new mods m))
      (SegmentID_cr result) = Some new \<and>
      CompactionFrom new = filter (\<lambda>k. GetSegment (segments m) k \<noteq> None) (map SegmentID_cl logs)"
    if "NumOfRows_cr result > 0"
    using that r(3) r(4) r(8) foundSources_ids[OF keyed]
    by (simp add: alterInMemory_map_of r(1))
  have third: "GetSegment (segments (alterInMemoryMetaAfterCompaction new mods m))
      (SegmentID_cr result) = GetSegment (segments m) (SegmentID_cr result)"
    if le: "NumOfRows_cr result \<le> 0"
  proof -
    have "map_of ?pairs (SegmentID_cr result) = None"
    proof (rule ccontr)
      assume "map_of ?pairs (SegmentID_cr result) \<noteq> None"
      then obtain v where "map_of ?pairs (SegmentID_cr result) = Some v" by auto
      then have "(SegmentID_cr result, v) \<in> set ?pairs" by (rule map_of_SomeD)
      then have vm: "v \<in> set mods" and vid: "ID v = SegmentID_cr result" by auto
      from mods_old[OF vm] obtain a t' where a: "a \<in> set old"
        "v = a\<lparr>State := Dropped, DroppedAt := t'\<rparr>" by blast
      from old_key[OF a(1)] obtain cl' where c: "cl' \<in> set logs" "ID a = SegmentID_cl cl'" by blast
      from vid a(2) c(2) have "SegmentID_cr result = SegmentID_cl cl'" by simp
      with c(1) fresh show False by (metis imageI)
    qed
    with le r(4) alterInMemory_map_of[of new mods m "SegmentID_cr result"] show ?thesis
      by (simp add: map_add_def GetSegment_def)
  qed
  from first second third show ?thesis by blast
qed

theorem compaction_applied_witness:
  "(\<exists>old mods new.
      fst (GetCompleteCompactionMeta ex_logs (ex_result 0) ex_clock ex_meta_compact)
        = Inr (old, mods, new) \<and>
      map_option State
        (GetSegment (segments (alterInMemoryMetaAfterCompaction new mods ex_meta_compact)) 1)
        = Some Dropped \<and>
      map_option State
        (GetSegment (segments (alterInMemoryMetaAfterCompaction new mods ex_meta_compact)) 3)
        = Some Dropped \<and>
      GetSegment (segments (alterInMemoryMetaAfterCompaction new mods ex_meta_compact)) 9 = None) \<and>
   (\<exists>old mods new.
      fst (GetCompleteCompactionMeta ex_logs (ex_result 5) ex_clock ex_meta_compact)
        = Inr (old, mods, new) \<and>
      map_option State
        (GetSegment (segments (alterInMemoryMetaAfterCompaction new mods ex_meta_compact)) 1)
        = Some Dropped \<and>
      map_option State
        (GetSegment (segments (alterInMemoryMetaAfterCompaction new mods ex_meta_compact)) 3)
        = Some Dropped \<and>
      GetSegment (segments (alterInMemoryMetaAfterCompaction new mods ex_meta_compact)) 9
        = Some new \<and>
      CompactionFrom new = [1, 3])"
proof -
  have keyed: "\<forall>cl \<in> set ex_logs. \<forall>s.
      GetSegment (segments ex_meta_compact) (SegmentID_cl cl) = Some s \<longrightarrow> ID s = SegmentID_cl cl"
    by (auto simp: GetSegment_def compact_eval)
  have fresh: "SegmentID_cr (ex_result rows) \<notin> SegmentID_cl ` set ex_logs" for rows
    by (simp add: ex_result_def ex_logs_def)
  have g: "GetSegment (segments ex_meta_compact) 1 = Some ex_segment_a"
    "GetSegment (segments ex_meta_compact) 3 = Some ex_segment_b"
    "GetSegment (segments ex_meta_compact) 9 = None"
    by (simp_all add: GetSegment_def ex_meta_compact_def)
  have ex: "\<exists>r. fst (GetCompleteCompactionMeta ex_logs (ex_result rows) ex_clock ex_meta_compact)
      = Inr r" for rows
    by (simp add: GetCompleteCompactionMeta_def Let_def GetSegment_def ex_meta_compact_def
        ex_logs_def)
  from ex[of 0] obtain old0 mods0 new0 where
    r0: "fst (GetCompleteCompactionMeta ex_logs (ex_result 0) ex_clock ex_meta_compact)
      = Inr (old0, mods0, new0)"
    by (metis prod_cases3)
  from ex[of 5] obtain old5 mods5 new5 where
    r5: "fst (GetCompleteCompactionMeta ex_logs (ex_result 5) ex_clock ex_meta_compact)
      = Inr (old5, mods5, new5)"
    by (metis prod_cases3)
  note p0 = compaction_applied [OF keyed r0 fresh]
  note p5 = compaction_applied [OF keyed r5 fresh]
  have "map_option State
        (GetSegment (segments (alterInMemoryMetaAfterCompaction new0 mods0 ex_meta_compact)) 1)
        = Some Dropped"
    "map_option State
        (GetSegment (segments (alterInMemoryMetaAfterCompaction new0 mods0 ex_meta_compact)) 3)
        = Some Dropped"
    "GetSegment (segments (alterInMemoryMetaAfterCompaction new0 mods0 ex_meta_compact)) 9 = None"
    using p0 g by (auto simp: ex_logs_def ex_result_def)
  moreover have "map_option State
        (GetSegment (segments (alterInMemoryMetaAfterCompaction new5 mods5 ex_meta_compact)) 1)
        = Some Dropped"
    "map_option State
        (GetSegment (segments (alterInMemoryMetaAfterCompaction new5 mods5 ex_meta_compact)) 3)
        = Some Dropped"
    "GetSegment (segments (alterInMemoryMetaAfterCompaction new5 mods5 ex_meta_compact)) 9
        = Some new5"
    "CompactionFrom new5 = [1, 3]"
    using p5 g by (auto simp: ex_logs_def ex_result_def)
  ultimately show ?thesis
    using r0 r5 by simp
qed

section \<open>Properties of the segment replica\<close>

subsection \<open>\<^verbatim>\<open>listNewSegmentsStartPositions\<close>\<close>

lemma listNewSegments_loop_Nil:
  "newSegments replica = [] \<Longrightarrow> listNewSegments_loop replica acc = Inr (acc, replica)"
  by (subst listNewSegments_loop.simps) simp

lemma listNewSegments_loop_Cons:
  assumes "newSegments replica = (k, s) # rest"
  shows "listNewSegments_loop replica acc
       = listNewSegments_loop
           (replica\<lparr>normalSegments := AList.update k (s\<lparr>isNew := False\<rparr>) (normalSegments replica),
                    newSegments := AList.delete k rest\<rparr>)
           (acc @ [(k, startPos s)])"
  using assms
  by (subst listNewSegments_loop.simps) (simp add: new2NormalSegment_def)

lemma listNewSegments_loop_result:
  "\<exists>res replica'.
     listNewSegments_loop replica acc = Inr (acc @ res, replica') \<and>
     newSegments replica' = [] \<and>
     set res = {(k, startPos s) | k s. map_of (newSegments replica) k = Some s} \<and>
     map_of (normalSegments replica')
       = map_of (normalSegments replica)
           ++ (\<lambda>k. map_option (\<lambda>s. s\<lparr>isNew := False\<rparr>) (map_of (newSegments replica) k)) \<and>
     flushedSegments replica' = flushedSegments replica \<and>
     compactedSegments replica' = compactedSegments replica \<and>
     collectionID_r replica' = collectionID_r replica"
proof (induction "length (newSegments replica)" arbitrary: replica acc rule: less_induct)
  case less
  show ?case
  proof (cases "newSegments replica")
    case Nil
    then show ?thesis
      by (auto simp: listNewSegments_loop_Nil)
  next
    case (Cons e rest)
    obtain k s where e: "e = (k, s)" by (cases e)
    let ?r1 = "replica\<lparr>normalSegments := AList.update k (s\<lparr>isNew := False\<rparr>) (normalSegments replica),
                    newSegments := AList.delete k rest\<rparr>"
    have len: "length (newSegments ?r1) < length (newSegments replica)"
      using Cons by (simp add: AList.length_delete_le less_Suc_eq_le)
    from less[OF len, of "acc @ [(k, startPos s)]"]
    have "\<exists>res1 replica'.
      listNewSegments_loop ?r1 (acc @ [(k, startPos s)]) = Inr ((acc @ [(k, startPos s)]) @ res1, replica') \<and>
      newSegments replica' = [] \<and>
      set res1 = {(k', startPos s') | k' s'. map_of (AList.delete k rest) k' = Some s'} \<and>
      map_of (normalSegments replica')
         = map_of (AList.update k (s\<lparr>isNew := False\<rparr>) (normalSegments replica))
             ++ (\<lambda>k'. map_option (\<lambda>s. s\<lparr>isNew := False\<rparr>) (map_of (AList.delete k rest) k')) \<and>
      flushedSegments replica' = flushedSegments replica \<and>
      compactedSegments replica' = compactedSegments replica \<and>
      collectionID_r replica' = collectionID_r replica"
      by simp
    then obtain res1 replica' where
      l: "listNewSegments_loop ?r1 (acc @ [(k, startPos s)]) = Inr ((acc @ [(k, startPos s)]) @ res1, replica')"
      and n: "newSegments replica' = []"
      and rs: "set res1 = {(k', startPos s') | k' s'. map_of (AList.delete k rest) k' = Some s'}"
      and nm: "map_of (normalSegments replica')
         = map_of (AList.update k (s\<lparr>isNew := False\<rparr>) (normalSegments replica))
             ++ (\<lambda>k'. map_option (\<lambda>s. s\<lparr>isNew := False\<rparr>) (map_of (AList.delete k rest) k'))"
      and fl: "flushedSegments replica' = flushedSegments replica"
        "compactedSegments replica' = compactedSegments replica"
        "collectionID_r replica' = collectionID_r replica"
      by blast
    have a: "listNewSegments_loop replica acc = Inr (acc @ ((k, startPos s) # res1), replica')"
      using listNewSegments_loop_Cons[of replica k s rest acc] Cons e l by simp
    have b: "set ((k, startPos s) # res1)
        = {(k', startPos s') | k' s'. map_of (newSegments replica) k' = Some s'}"
      using rs Cons e by (auto simp: delete_conv' split: if_splits)
    have c: "map_of (normalSegments replica')
       = map_of (normalSegments replica)
           ++ (\<lambda>k'. map_option (\<lambda>s. s\<lparr>isNew := False\<rparr>) (map_of (newSegments replica) k'))"
      using nm Cons e
      by (auto simp: delete_conv' update_conv' fun_eq_iff map_add_def split: option.splits)
    from a b c n fl show ?thesis by blast
  qed
qed

text \<open>
  C9. \<^verbatim>\<open>listNewSegmentsStartPositions\<close> always returns. Its result lists the start
  position of every segment of the new bucket, under the segment's id; the same call
  empties the new bucket and stores each of these segments in the normal bucket, no
  longer marked new. The other entries of the normal bucket, the flushed and the
  compacted bucket stay as they are. A second call on the replica so obtained returns
  the empty list and changes nothing.
\<close>

theorem listNewSegmentsStartPositions_once:
  "\<exists>res replica'.
     listNewSegmentsStartPositions replica = Inr (res, replica') \<and>
     set res = {(k, startPos s) | k s. map_of (newSegments replica) k = Some s} \<and>
     newSegments replica' = [] \<and>
     (\<forall>k s. map_of (newSegments replica) k = Some s \<longrightarrow>
        map_of (normalSegments replica') k = Some (s\<lparr>isNew := False\<rparr>)) \<and>
     (\<forall>k. map_of (newSegments replica) k = None \<longrightarrow>
        map_of (normalSegments replica') k = map_of (normalSegments replica) k) \<and>
     flushedSegments replica' = flushedSegments replica \<and>
     compactedSegments replica' = compactedSegments replica \<and>
     listNewSegmentsStartPositions replica' = Inr ([], replica')"
proof -
  from listNewSegments_loop_result[of replica "[]"]
  obtain res replica' where
    l: "listNewSegments_loop replica [] = Inr (res, replica')"
    and n: "newSegments replica' = []"
    and rs: "set res = {(k, startPos s) | k s. map_of (newSegments replica) k = Some s}"
    and nm: "map_of (normalSegments replica')
       = map_of (normalSegments replica)
           ++ (\<lambda>k. map_option (\<lambda>s. s\<lparr>isNew := False\<rparr>) (map_of (newSegments replica) k))"
    and fl: "flushedSegments replica' = flushedSegments replica"
      "compactedSegments replica' = compactedSegments replica"
    by auto
  from n have again: "listNewSegmentsStartPositions replica' = Inr ([], replica')"
    by (simp add: listNewSegmentsStartPositions_def listNewSegments_loop_Nil)
  from l rs n nm fl again show ?thesis
    by (auto simp: listNewSegmentsStartPositions_def map_add_def)
qed

theorem listNewSegmentsStartPositions_once_witness:
  "\<exists>res replica'.
     listNewSegmentsStartPositions ex_replica = Inr (res, replica') \<and>
     set res = {(1, Some (ex_position 5)), (2, None)} \<and>
     newSegments replica' = [] \<and>
     map_of (normalSegments replica') 1 = Some (ex_dn_segment\<lparr>isNew := False\<rparr>) \<and>
     map_of (normalSegments replica') 2
       = Some (ex_dn_segment\<lparr>segmentID := 2, startPos := None, isNew := False\<rparr>) \<and>
     listNewSegmentsStartPositions replica' = Inr ([], replica')"
proof -
  from listNewSegmentsStartPositions_once [of ex_replica]
  obtain res replica' where
    a: "listNewSegmentsStartPositions ex_replica = Inr (res, replica')"
    and b: "set res = {(k, startPos s) | k s. map_of (newSegments ex_replica) k = Some s}"
    and c: "newSegments replica' = []"
    and d: "\<forall>k s. map_of (newSegments ex_replica) k = Some s \<longrightarrow>
        map_of (normalSegments replica') k = Some (s\<lparr>isNew := False\<rparr>)"
    and e: "listNewSegmentsStartPositions replica' = Inr ([], replica')"
    by blast
  from b have b': "set res = {(1, Some (ex_position 5)), (2, None)}"
    by (auto simp: ex_replica_def ex_dn_segment_def split: if_splits)
  from d have d': "map_of (normalSegments replica') 1 = Some (ex_dn_segment\<lparr>isNew := False\<rparr>)"
    "map_of (normalSegments replica') 2
       = Some (ex_dn_segment\<lparr>segmentID := 2, startPos := None, isNew := False\<rparr>)"
    by (simp_all add: ex_replica_def)
  from a b' c d' e show ?thesis by blast
qed

subsection \<open>\<^verbatim>\<open>mergeFlushedSegments\<close>\<close>

lemma inValidSegments_eq:
  "inValidSegments cf replica
     = filter (\<lambda>k. map_of (flushedSegments replica) k = None \<or>
                   map_of (newSegments replica) k \<noteq> None \<or>
                   map_of (normalSegments replica) k \<noteq> None) cf"
  unfolding inValidSegments_def hasSegment_def Let_def
  by (rule filter_cong) auto

lemma moveCompacted_all_distinct:
  "distinct cf \<Longrightarrow> \<forall>k \<in> set cf. map_of (flushedSegments r) k \<noteq> None \<Longrightarrow>
   \<exists>r'. moveCompacted_all nid r cf = (None, r') \<and>
     collectionID_r r' = collectionID_r r \<and>
     newSegments r' = newSegments r \<and>
     normalSegments r' = normalSegments r \<and>
     (\<forall>k. map_of (flushedSegments r') k
            = (if k \<in> set cf then None else map_of (flushedSegments r) k)) \<and>
     (\<forall>k. map_of (compactedSegments r') k
            = (if k \<in> set cf
               then map_option (\<lambda>s. s\<lparr>compactedTo := nid\<rparr>) (map_of (flushedSegments r) k)
               else map_of (compactedSegments r) k))"
proof (induction cf arbitrary: r)
  case Nil
  then show ?case by simp
next
  case (Cons c cf)
  from Cons.prems obtain s where s: "map_of (flushedSegments r) c = Some s" by auto
  let ?r1 = "r\<lparr>compactedSegments := AList.update c (s\<lparr>compactedTo := nid\<rparr>) (compactedSegments r),
               flushedSegments := AList.delete c (flushedSegments r)\<rparr>"
  have m: "moveCompacted nid r c = Inr ?r1"
    using s by (simp add: moveCompacted_def)
  have "\<forall>k \<in> set cf. map_of (flushedSegments ?r1) k \<noteq> None"
    using Cons.prems by (auto simp: delete_conv')
  from Cons.IH[OF _ this] Cons.prems(1) obtain r' where
    f: "moveCompacted_all nid ?r1 cf = (None, r')"
    and k: "collectionID_r r' = collectionID_r ?r1" "newSegments r' = newSegments ?r1"
      "normalSegments r' = normalSegments ?r1"
    and fl: "\<forall>k. map_of (flushedSegments r') k
            = (if k \<in> set cf then None else map_of (flushedSegments ?r1) k)"
    and co: "\<forall>k. map_of (compactedSegments r') k
            = (if k \<in> set cf
               then map_option (\<lambda>s. s\<lparr>compactedTo := nid\<rparr>) (map_of (flushedSegments ?r1) k)
               else map_of (compactedSegments ?r1) k)"
    by auto
  have "moveCompacted_all nid r (c # cf) = (None, r')"
    using m f by simp
  moreover have "\<forall>k. map_of (flushedSegments r') k
            = (if k \<in> set (c # cf) then None else map_of (flushedSegments r) k)"
    using fl by (auto simp: delete_conv')
  moreover have "\<forall>k. map_of (compactedSegments r') k
            = (if k \<in> set (c # cf)
               then map_option (\<lambda>s. s\<lparr>compactedTo := nid\<rparr>) (map_of (flushedSegments r) k)
               else map_of (compactedSegments r) k)"
    using co s Cons.prems(1) by (auto simp: delete_conv' update_conv')
  ultimately show ?case
    using k by auto
qed

text \<open>
  What \<^verbatim>\<open>mergeFlushedSegments\<close> does for a \<^verbatim>\<open>compactedFrom\<close> that lists no id twice. It
  returns an error and leaves the four buckets as they are when the collection id of
  the new segment is not that of the replica, and when some id of \<^verbatim>\<open>compactedFrom\<close> is
  not in the flushed bucket or is in the new or the normal bucket: the error lists
  exactly these ids, in their order. Otherwise the call succeeds, every segment of
  \<^verbatim>\<open>compactedFrom\<close> leaves the flushed bucket and is stored in the compacted bucket with
  \<^verbatim>\<open>compactedTo\<close> the id of the new segment, and the new segment is stored in the flushed
  bucket if and only if its row count is positive.
\<close>

theorem mergeFlushedSegments_moves:
  "(collectionID seg \<noteq> collectionID_r replica \<longrightarrow>
      mergeFlushedSegments seg planID cf replica
        = (Some (MismatchCollection (collectionID seg)), replica)) \<and>
   inValidSegments cf replica
     = filter (\<lambda>k. map_of (flushedSegments replica) k = None \<or>
                   map_of (newSegments replica) k \<noteq> None \<or>
                   map_of (normalSegments replica) k \<noteq> None) cf \<and>
   (collectionID seg = collectionID_r replica \<and> inValidSegments cf replica \<noteq> [] \<longrightarrow>
      mergeFlushedSegments seg planID cf replica
        = (Some (InvalidCompactedFrom (inValidSegments cf replica)), replica)) \<and>
   (collectionID seg = collectionID_r replica \<and> inValidSegments cf replica = [] \<and> distinct cf \<longrightarrow>
      fst (mergeFlushedSegments seg planID cf replica) = None \<and>
      newSegments (snd (mergeFlushedSegments seg planID cf replica)) = newSegments replica \<and>
      normalSegments (snd (mergeFlushedSegments seg planID cf replica)) = normalSegments replica \<and>
      (\<forall>k \<in> set cf. \<exists>s. map_of (flushedSegments replica) k = Some s \<and>
          map_of (compactedSegments (snd (mergeFlushedSegments seg planID cf replica))) k
            = Some (s\<lparr>compactedTo := segmentID seg\<rparr>)) \<and>
      (\<forall>k. k \<notin> set cf \<longrightarrow>
          map_of (compactedSegments (snd (mergeFlushedSegments seg planID cf replica))) k
            = map_of (compactedSegments replica) k) \<and>
      (\<forall>k. map_of (flushedSegments (snd (mergeFlushedSegments seg planID cf replica))) k
            = (if 0 < numRows seg \<and> k = segmentID seg
               then Some (seg\<lparr>isNew := False, isFlushed := True\<rparr>)
               else if k \<in> set cf then None
               else map_of (flushedSegments replica) k)))"
proof (intro conjI impI)
  assume "collectionID seg \<noteq> collectionID_r replica"
  then show "mergeFlushedSegments seg planID cf replica
        = (Some (MismatchCollection (collectionID seg)), replica)"
    by (simp add: mergeFlushedSegments_def)
next
  show "inValidSegments cf replica
     = filter (\<lambda>k. map_of (flushedSegments replica) k = None \<or>
                   map_of (newSegments replica) k \<noteq> None \<or>
                   map_of (normalSegments replica) k \<noteq> None) cf"
    by (rule inValidSegments_eq)
next
  assume "collectionID seg = collectionID_r replica \<and> inValidSegments cf replica \<noteq> []"
  then show "mergeFlushedSegments seg planID cf replica
        = (Some (InvalidCompactedFrom (inValidSegments cf replica)), replica)"
    by (simp add: mergeFlushedSegments_def)
next
  let ?r = "snd (mergeFlushedSegments seg planID cf replica)"
  assume a: "collectionID seg = collectionID_r replica \<and> inValidSegments cf replica = [] \<and>
    distinct cf"
  then have v: "\<forall>k \<in> set cf. map_of (flushedSegments replica) k \<noteq> None"
    by (auto simp: inValidSegments_eq filter_empty_conv)
  from a have d: "distinct cf" by simp
  from moveCompacted_all_distinct[OF d v, of "segmentID seg"] obtain r' where
    f: "moveCompacted_all (segmentID seg) replica cf = (None, r')"
    and k: "newSegments r' = newSegments replica" "normalSegments r' = normalSegments replica"
    and fl: "\<forall>k. map_of (flushedSegments r') k
            = (if k \<in> set cf then None else map_of (flushedSegments replica) k)"
    and co: "\<forall>k. map_of (compactedSegments r') k
            = (if k \<in> set cf
               then map_option (\<lambda>s. s\<lparr>compactedTo := segmentID seg\<rparr>)
                      (map_of (flushedSegments replica) k)
               else map_of (compactedSegments replica) k)"
    by blast
  have m: "mergeFlushedSegments seg planID cf replica
      = (if numRows seg > 0
         then (None, r'\<lparr>flushedSegments :=
                 AList.update (segmentID seg) (seg\<lparr>isNew := False, isFlushed := True\<rparr>)
                   (flushedSegments r')\<rparr>)
         else (None, r'))"
    using a f by (simp add: mergeFlushedSegments_def)
  show "fst (mergeFlushedSegments seg planID cf replica) = None"
    "newSegments ?r = newSegments replica" "normalSegments ?r = normalSegments replica"
    using m k by simp_all
  show "\<forall>k \<in> set cf. \<exists>s. map_of (flushedSegments replica) k = Some s \<and>
          map_of (compactedSegments ?r) k = Some (s\<lparr>compactedTo := segmentID seg\<rparr>)"
    using m co v by auto
  show "\<forall>k. k \<notin> set cf \<longrightarrow> map_of (compactedSegments ?r) k = map_of (compactedSegments replica) k"
    using m co by simp
  show "\<forall>k. map_of (flushedSegments ?r) k
            = (if 0 < numRows seg \<and> k = segmentID seg
               then Some (seg\<lparr>isNew := False, isFlushed := True\<rparr>)
               else if k \<in> set cf then None
               else map_of (flushedSegments replica) k)"
    using m fl by (simp add: update_conv')
qed


theorem mergeFlushedSegments_moves_witness:
  "mergeFlushedSegments (ex_flushed_segment 9\<lparr>collectionID := 5\<rparr>) 1 [7] ex_replica
     = (Some (MismatchCollection 5), ex_replica) \<and>
   inValidSegments [7, 1, 4] ex_replica = [1, 4] \<and>
   mergeFlushedSegments (ex_flushed_segment 9) 1 [7, 1, 4] ex_replica
     = (Some (InvalidCompactedFrom [1, 4]), ex_replica) \<and>
   inValidSegments [7, 8] ex_replica = [] \<and>
   fst (mergeFlushedSegments (ex_flushed_segment 9) 1 [7, 8] ex_replica) = None \<and>
   map_of (compactedSegments (snd (mergeFlushedSegments (ex_flushed_segment 9) 1 [7, 8] ex_replica))) 7
     = Some (ex_flushed_segment 7\<lparr>compactedTo := 9\<rparr>) \<and>
   map_of (flushedSegments (snd (mergeFlushedSegments (ex_flushed_segment 9) 1 [7, 8] ex_replica))) 7
     = None \<and>
   map_of (flushedSegments (snd (mergeFlushedSegments (ex_flushed_segment 9) 1 [7, 8] ex_replica))) 9
     = Some (ex_flushed_segment 9) \<and>
   map_of (flushedSegments
      (snd (mergeFlushedSegments (ex_flushed_segment 9\<lparr>numRows := 0\<rparr>) 1 [7, 8] ex_replica))) 9
     = None"
proof -
  have i1: "inValidSegments [7, 1, 4] ex_replica = [1, 4]"
    and i2: "inValidSegments [7, 8] ex_replica = []"
    by (simp_all add: inValidSegments_def hasSegment_def ex_replica_def)
  have c: "collectionID (ex_flushed_segment 9) = collectionID_r ex_replica"
    "collectionID (ex_flushed_segment 9\<lparr>numRows := 0\<rparr>) = collectionID_r ex_replica"
    "collectionID (ex_flushed_segment 9\<lparr>collectionID := 5\<rparr>) \<noteq> collectionID_r ex_replica"
    by (simp_all add: ex_flushed_segment_def ex_dn_segment_def ex_replica_def)
  have e: "ex_flushed_segment 9\<lparr>isNew := False, isFlushed := True\<rparr> = ex_flushed_segment 9"
    by (simp add: ex_flushed_segment_def)
  show ?thesis
    using i1 i2 c e
      mergeFlushedSegments_moves [where seg = "ex_flushed_segment 9\<lparr>collectionID := 5\<rparr>"
        and planID = 1 and cf = "[7]" and replica = ex_replica]
      mergeFlushedSegments_moves [where seg = "ex_flushed_segment 9"
        and planID = 1 and cf = "[7, 1, 4]" and replica = ex_replica]
      mergeFlushedSegments_moves [where seg = "ex_flushed_segment 9"
        and planID = 1 and cf = "[7, 8]" and replica = ex_replica]
      mergeFlushedSegments_moves [where seg = "ex_flushed_segment 9\<lparr>numRows := 0\<rparr>"
        and planID = 1 and cf = "[7, 8]" and replica = ex_replica]
    by (simp add: ex_replica_def ex_flushed_segment_def ex_dn_segment_def)
qed

lemmas replica_eval = mergeFlushedSegments_def inValidSegments_def hasSegment_def
  moveCompacted_def Let_def ex_replica_def ex_flushed_segment_def ex_dn_segment_def

text \<open>
  C8. The replica holds the flushed segments 7 and 8; the new segment 9 has three rows
  and the collection id of the replica; \<^verbatim>\<open>compactedFrom\<close> is \<open>[7, 7]\<close>. Every id of
  \<^verbatim>\<open>compactedFrom\<close> is a flushed segment of the replica, and the validation loop finds no
  invalid id. The first round of the moving loop moves segment 7 into the compacted
  bucket; the second round reads the flushed entry of 7 again, which is gone, and
  dereferences the nil pointer. The call does not return: segment 7 is left moved, and
  the new segment has not been stored.
\<close>

theorem mergeFlushedSegments_repeated_id:
  "collectionID (ex_flushed_segment 9) = collectionID_r ex_replica \<and>
   inValidSegments [7, 7] ex_replica = [] \<and>
   map_of (flushedSegments ex_replica) 7 = Some (ex_flushed_segment 7) \<and>
   mergeFlushedSegments (ex_flushed_segment 9) 1 [7, 7] ex_replica
     = (Some Panic,
        ex_replica\<lparr>compactedSegments := [(7, ex_flushed_segment 7\<lparr>compactedTo := 9\<rparr>)],
                   flushedSegments := [(8, ex_flushed_segment 8)]\<rparr>)"
  by (simp add: replica_eval)

theorem mergeFlushedSegments_repeated_id_witness:
  "hasSegment 7 True ex_replica \<and> \<not> hasSegment 7 False ex_replica \<and>
   fst (mergeFlushedSegments (ex_flushed_segment 9) 1 [7, 7] ex_replica) = Some Panic \<and>
   map_of (compactedSegments
      (snd (mergeFlushedSegments (ex_flushed_segment 9) 1 [7, 7] ex_replica))) 7
     = Some (ex_flushed_segment 7\<lparr>compactedTo := 9\<rparr>) \<and>
   map_of (flushedSegments
      (snd (mergeFlushedSegments (ex_flushed_segment 9) 1 [7, 7] ex_replica))) 7 = None \<and>
   map_of (flushedSegments
      (snd (mergeFlushedSegments (ex_flushed_segment 9) 1 [7, 7] ex_replica))) 9 = None"
proof -
  have "hasSegment 7 True ex_replica" "\<not> hasSegment 7 False ex_replica"
    by (simp_all add: hasSegment_def ex_replica_def)
  with mergeFlushedSegments_repeated_id show ?thesis
    by simp
qed

subsection \<open>\<^verbatim>\<open>updatePKRange\<close>\<close>

lemma updatePk_range:
  assumes gt: "\<And>a b. GT (C a) (C b) = (b < a)" and lt: "\<And>a b. LT (C a) (C b) = (a < b)"
    and r: "pkRange C ks s"
  shows "pkRange C (ks @ [k]) (updatePk (C k) s)"
proof (cases "ks = []")
  case True
  with r show ?thesis
    by (simp add: pkRange_def updatePk_def)
next
  case False
  define lo where "lo = Min (set ks)"
  define hi where "hi = Max (set ks)"
  from False have e: "Min (set (ks @ [k])) = min k lo" "Max (set (ks @ [k])) = max k hi"
    by (simp_all add: lo_def hi_def)
  from r False have m: "minPK s = Some (C lo)" "maxPK s = Some (C hi)"
    by (simp_all add: pkRange_def lo_def hi_def)
  have "minPK (updatePk (C k) s) = Some (C (min k lo))"
    "maxPK (updatePk (C k) s) = Some (C (max k hi))"
    using m by (auto simp: updatePk_def gt lt min_def max_def Let_def)
  then show ?thesis
    unfolding pkRange_def e by simp
qed

lemma Test_added: "k \<in> set ks \<Longrightarrow> Test (g k) (f\<lparr>added := added f @ map g ks\<rparr>)"
  by (simp add: Test_def)

lemma updatePk_pkFilter [simp]: "pkFilter (updatePk pk s) = pkFilter s"
  by (simp add: updatePk_def Let_def split: option.splits)

lemma pkRange_pkFilter [simp]: "pkRange C ks (s\<lparr>pkFilter := f\<rparr>) = pkRange C ks s"
  by (simp add: pkRange_def)

lemma foldE_addInt64:
  "pkRange Int64PrimaryKey ks s \<Longrightarrow> pkFilter s = Some f \<Longrightarrow>
   \<exists>s'. foldE addInt64 s pks = Inr s' \<and>
     pkFilter s' = Some (f\<lparr>added := added f @ map PutUint64 pks\<rparr>) \<and>
     pkRange Int64PrimaryKey (ks @ pks) s'"
proof (induction pks arbitrary: s ks f)
  case Nil
  then show ?case by simp
next
  case (Cons pk pks)
  let ?s1 = "(updatePk (Int64PrimaryKey pk) s)\<lparr>pkFilter := Some (Add (PutUint64 pk) f)\<rparr>"
  have a: "addInt64 s pk = Inr ?s1"
    using Cons.prems(2) by (simp add: addInt64_def)
  have r1: "pkRange Int64PrimaryKey (ks @ [pk]) ?s1"
    using updatePk_range[of Int64PrimaryKey ks s pk] Cons.prems(1) by simp
  have f1: "pkFilter ?s1 = Some (Add (PutUint64 pk) f)" by simp
  from Cons.IH[OF r1 f1] a show ?case
    by (auto simp: Add_def)
qed

lemma foldE_addString:
  "pkRange VarCharPrimaryKey ks s \<Longrightarrow> pkFilter s = Some f \<Longrightarrow>
   \<exists>s'. foldE addString s pks = Inr s' \<and>
     pkFilter s' = Some (f\<lparr>added := added f @ map (map of_char) pks\<rparr>) \<and>
     pkRange VarCharPrimaryKey (ks @ pks) s'"
proof (induction pks arbitrary: s ks f)
  case Nil
  then show ?case by simp
next
  case (Cons pk pks)
  let ?s1 = "(updatePk (VarCharPrimaryKey pk) s)\<lparr>pkFilter := Some (AddString pk f)\<rparr>"
  have a: "addString s pk = Inr ?s1"
    using Cons.prems(2) by (simp add: addString_def)
  have r1: "pkRange VarCharPrimaryKey (ks @ [pk]) ?s1"
    using updatePk_range[of VarCharPrimaryKey ks s pk] Cons.prems(1) by simp
  have f1: "pkFilter ?s1 = Some (AddString pk f)" by simp
  from Cons.IH[OF r1 f1] a show ?case
    by (auto simp: Add_def AddString_def)
qed

lemma int64_batches:
  "pkRange Int64PrimaryKey ks s \<Longrightarrow> pkFilter s = Some f \<Longrightarrow>
   \<exists>s'. foldE (\<lambda>s b. updatePKRange b s) s (map Int64FieldData batches) = Inr s' \<and>
     pkFilter s' = Some (f\<lparr>added := added f @ map PutUint64 (concat batches)\<rparr>) \<and>
     pkRange Int64PrimaryKey (ks @ concat batches) s'"
proof (induction batches arbitrary: s ks f)
  case Nil
  then show ?case by simp
next
  case (Cons b batches)
  from foldE_addInt64[OF Cons.prems, of b] obtain s1 where
    s1: "foldE addInt64 s b = Inr s1" "pkFilter s1 = Some (f\<lparr>added := added f @ map PutUint64 b\<rparr>)"
    "pkRange Int64PrimaryKey (ks @ b) s1" by blast
  from Cons.IH[OF s1(3) s1(2)] s1(1) show ?case by auto
qed

lemma string_batches:
  "pkRange VarCharPrimaryKey ks s \<Longrightarrow> pkFilter s = Some f \<Longrightarrow>
   \<exists>s'. foldE (\<lambda>s b. updatePKRange b s) s (map StringFieldData batches) = Inr s' \<and>
     pkFilter s' = Some (f\<lparr>added := added f @ map (map of_char) (concat batches)\<rparr>) \<and>
     pkRange VarCharPrimaryKey (ks @ concat batches) s'"
proof (induction batches arbitrary: s ks f)
  case Nil
  then show ?case by simp
next
  case (Cons b batches)
  from foldE_addString[OF Cons.prems, of b] obtain s1 where
    s1: "foldE addString s b = Inr s1"
    "pkFilter s1 = Some (f\<lparr>added := added f @ map (map of_char) b\<rparr>)"
    "pkRange VarCharPrimaryKey (ks @ b) s1" by blast
  from Cons.IH[OF s1(3) s1(2)] s1(1) show ?case by auto
qed

text \<open>
  C10. Starting from a segment with a filter and with no key range yet, every sequence
  of \<^verbatim>\<open>updatePKRange\<close> calls with int64 batches, and every sequence with string batches,
  succeeds; the filter has received every key of the batches, in order, so that each
  of them tests positive, and \<^verbatim>\<open>minPK\<close> and \<^verbatim>\<open>maxPK\<close> are the least and the greatest
  of all keys of the batches (nil when there was no key). A call with field data of
  another type returns no error and leaves the segment as it is.
\<close>

theorem updatePKRange_tracks_keys:
  "(minPK s = None \<and> maxPK s = None \<and> pkFilter s = Some f \<longrightarrow>
      (\<exists>s'. foldE (\<lambda>s b. updatePKRange b s) s (map Int64FieldData batches) = Inr s' \<and>
         pkFilter s' = Some (f\<lparr>added := added f @ map PutUint64 (concat batches)\<rparr>) \<and>
         (\<forall>k \<in> set (concat batches). Test (PutUint64 k) (the (pkFilter s'))) \<and>
         pkRange Int64PrimaryKey (concat batches) s') \<and>
      (\<exists>s'. foldE (\<lambda>s b. updatePKRange b s) s (map StringFieldData sbatches) = Inr s' \<and>
         pkFilter s' = Some (f\<lparr>added := added f @ map (map of_char) (concat sbatches)\<rparr>) \<and>
         (\<forall>k \<in> set (concat sbatches). Test (map of_char k) (the (pkFilter s'))) \<and>
         pkRange VarCharPrimaryKey (concat sbatches) s')) \<and>
   updatePKRange OtherFieldData s = Inr s"
proof (intro conjI impI)
  assume a: "minPK s = None \<and> maxPK s = None \<and> pkFilter s = Some f"
  then have r: "pkRange Int64PrimaryKey [] s" and f: "pkFilter s = Some f"
    by (simp_all add: pkRange_def)
  from int64_batches[OF r f, of batches] obtain s' where
    s': "foldE (\<lambda>s b. updatePKRange b s) s (map Int64FieldData batches) = Inr s'"
    "pkFilter s' = Some (f\<lparr>added := added f @ map PutUint64 (concat batches)\<rparr>)"
    "pkRange Int64PrimaryKey (concat batches) s'"
    by auto
  have "\<forall>k \<in> set (concat batches). Test (PutUint64 k) (the (pkFilter s'))"
  proof
    fix k assume "k \<in> set (concat batches)"
    from Test_added[OF this, of PutUint64 f]
    show "Test (PutUint64 k) (the (pkFilter s'))" by (simp only: s'(2) option.sel)
  qed
  with s'
  show "\<exists>s'. foldE (\<lambda>s b. updatePKRange b s) s (map Int64FieldData batches) = Inr s' \<and>
         pkFilter s' = Some (f\<lparr>added := added f @ map PutUint64 (concat batches)\<rparr>) \<and>
         (\<forall>k \<in> set (concat batches). Test (PutUint64 k) (the (pkFilter s'))) \<and>
         pkRange Int64PrimaryKey (concat batches) s'"
    by blast
next
  assume a: "minPK s = None \<and> maxPK s = None \<and> pkFilter s = Some f"
  then have r: "pkRange VarCharPrimaryKey [] s" and f: "pkFilter s = Some f"
    by (simp_all add: pkRange_def)
  from string_batches[OF r f, of sbatches] obtain s' where
    s': "foldE (\<lambda>s b. updatePKRange b s) s (map StringFieldData sbatches) = Inr s'"
    "pkFilter s' = Some (f\<lparr>added := added f @ map (map of_char) (concat sbatches)\<rparr>)"
    "pkRange VarCharPrimaryKey (concat sbatches) s'"
    by auto
  have "\<forall>k \<in> set (concat sbatches). Test (map of_char k) (the (pkFilter s'))"
  proof
    fix k assume "k \<in> set (concat sbatches)"
    from Test_added[OF this, of "map of_char" f]
    show "Test (map of_char k) (the (pkFilter s'))" by (simp only: s'(2) option.sel)
  qed
  with s'
  show "\<exists>s'. foldE (\<lambda>s b. updatePKRange b s) s (map StringFieldData sbatches) = Inr s' \<and>
         pkFilter s' = Some (f\<lparr>added := added f @ map (map of_char) (concat sbatches)\<rparr>) \<and>
         (\<forall>k \<in> set (concat sbatches). Test (map of_char k) (the (pkFilter s'))) \<and>
         pkRange VarCharPrimaryKey (concat sbatches) s'"
    by blast
next
  show "updatePKRange OtherFieldData s = Inr s" by simp
qed

theorem updatePKRange_tracks_keys_witness:
  "minPK ex_dn_segment = None \<and> maxPK ex_dn_segment = None \<and>
   pkFilter ex_dn_segment = Some \<lparr>added = []\<rparr> \<and>
   (\<exists>s'. foldE (\<lambda>s b. updatePKRange b s) ex_dn_segment
            (map Int64FieldData [[20, 10], [30]]) = Inr s' \<and>
      pkFilter s' = Some \<lparr>added = map PutUint64 [20, 10, 30]\<rparr> \<and>
      minPK s' = Some (Int64PrimaryKey 10) \<and> maxPK s' = Some (Int64PrimaryKey 30)) \<and>
   (\<exists>s'. foldE (\<lambda>s b. updatePKRange b s) ex_dn_segment
            (map StringFieldData [[''b''], [''a'', ''c'']]) = Inr s' \<and>
      minPK s' = Some (VarCharPrimaryKey ''a'') \<and> maxPK s' = Some (VarCharPrimaryKey ''c'')) \<and>
   updatePKRange OtherFieldData ex_dn_segment = Inr ex_dn_segment"
proof -
  have a: "minPK ex_dn_segment = None \<and> maxPK ex_dn_segment = None \<and>
    pkFilter ex_dn_segment = Some \<lparr>added = []\<rparr>"
    by (simp add: ex_dn_segment_def)
  note t = updatePKRange_tracks_keys [where s = ex_dn_segment and f = "\<lparr>added = []\<rparr>"
      and batches = "[[20, 10], [30]]" and sbatches = "[[''b''], [''a'', ''c'']]"]
  from t a obtain s1 where s1:
    "foldE (\<lambda>s b. updatePKRange b s) ex_dn_segment (map Int64FieldData [[20, 10], [30]]) = Inr s1"
    "pkFilter s1 = Some (\<lparr>added = []\<rparr>\<lparr>added := added \<lparr>added = []\<rparr> @ map PutUint64 (concat [[20, 10], [30]])\<rparr>)"
    "pkRange Int64PrimaryKey (concat [[20, 10], [30]]) s1"
    by blast
  from t a obtain s2 where s2:
    "foldE (\<lambda>s b. updatePKRange b s) ex_dn_segment
       (map StringFieldData [[''b''], [''a'', ''c'']]) = Inr s2"
    "pkRange VarCharPrimaryKey (concat [[''b''], [''a'', ''c'']]) s2"
    by blast
  have m1: "minPK s1 = Some (Int64PrimaryKey 10)" "maxPK s1 = Some (Int64PrimaryKey 30)"
    using s1(3) by (simp_all add: pkRange_def)
  have "Min (set [''b'', ''a'', ''c'']) = ''a''" "Max (set [''b'', ''a'', ''c'']) = ''c''"
    by (simp_all add: min_def max_def less_eq_char_def)
  then have m2: "minPK s2 = Some (VarCharPrimaryKey ''a'')" "maxPK s2 = Some (VarCharPrimaryKey ''c'')"
    using s2(2) by (simp_all add: pkRange_def)
  from a s1(1,2) m1 s2(1) m2 t show ?thesis
    by simp
qed

end
